theory Spec2Isabelle
  imports Complex_Main
begin

section \<open>Noise reduction: the data model\<close>

text \<open>
  A shallow embedding of NoiseReduction.cpp. Conventions of the embedding:
  \<^item> \<open>float\<close> and \<open>double\<close> values are real numbers: rounding, infinities and NaN are not
    part of the embedding, so every equation between samples, gains or powers is an
    equation of exact arithmetic;
  \<^item> \<open>int\<close> and \<open>sampleCount\<close> values are unbounded integers (no counter of the effect
    comes near the width of its type); a vector is a list, read at \<open>nat i\<close>;
  \<^item> the transforms \<open>RealFFTf\<close>, \<open>InverseRealFFTf\<close> and the table \<open>BitReversed\<close> belong to
    RealFFTf.cpp, which is not among the sources: they are fields of the handle
    \<open>HFFT\<close>, about which nothing is assumed;
  \<^item> the fields that hold enumerators but are declared \<open>int\<close> and compared with
    enumerators (\<open>mMethod\<close>, \<open>mNoiseReductionChoice\<close>) are integers, so that the
    \<open>default\<close> branch of a \<open>switch\<close> is a branch here as well; a field that is only
    ever an index into a table (\<open>mWindowTypes\<close>) or a shift count (the two choice
    fields) has the type of the table's indices or is a natural number.
\<close>

type_synonym FloatVector = "real list"

definition DM_MEDIAN :: int where "DM_MEDIAN = 0"
definition DM_SECOND_GREATEST :: int where "DM_SECOND_GREATEST = 1"
definition DM_OLD_METHOD :: int where "DM_OLD_METHOD = 2"

text \<open>\<open>minSignalTime = 0.05f\<close>: the single precision number nearest to 0.05.\<close>

definition minSignalTime :: real where
  "minSignalTime = 13421773 / 268435456"

datatype WindowTypes =
  WT_RECTANGULAR_HANN | WT_HANN_RECTANGULAR | WT_HANN_HANN | WT_BLACKMAN_HANN

record WindowTypesInfo =
  minSteps :: int
  inCoefficients :: "real \<times> real \<times> real"
  outCoefficients :: "real \<times> real \<times> real"
  productConstantTerm :: real

fun windowTypesInfo :: "WindowTypes \<Rightarrow> WindowTypesInfo" where
  "windowTypesInfo WT_RECTANGULAR_HANN =
     \<lparr>minSteps = 2, inCoefficients = (1, 0, 0), outCoefficients = (1/2, -1/2, 0),
      productConstantTerm = 1/2\<rparr>"
| "windowTypesInfo WT_HANN_RECTANGULAR =
     \<lparr>minSteps = 2, inCoefficients = (1/2, -1/2, 0), outCoefficients = (1, 0, 0),
      productConstantTerm = 1/2\<rparr>"
| "windowTypesInfo WT_HANN_HANN =
     \<lparr>minSteps = 4, inCoefficients = (1/2, -1/2, 0), outCoefficients = (1/2, -1/2, 0),
      productConstantTerm = 375/1000\<rparr>"
| "windowTypesInfo WT_BLACKMAN_HANN =
     \<lparr>minSteps = 4, inCoefficients = (42/100, -1/2, 8/100), outCoefficients = (1/2, -1/2, 0),
      productConstantTerm = 335/1000\<rparr>"

definition NRC_REDUCE_NOISE :: int where "NRC_REDUCE_NOISE = 0"
definition NRC_ISOLATE_NOISE :: int where "NRC_ISOLATE_NOISE = 1"
definition NRC_LEAVE_RESIDUE :: int where "NRC_LEAVE_RESIDUE = 2"

subsection \<open>Statistics\<close>

record Statistics =
  mRate :: real
  mProfileWindowSize :: int
  mProfileWindowTypes :: WindowTypes
  mTotalWindows :: int
  mTrackWindows :: int
  mSums :: FloatVector
  mMeans :: FloatVector
  mNoiseThreshold :: FloatVector

text \<open>The constructor \<open>Statistics(spectrumSize, rate, windowTypes)\<close>; the two fields
  \<open>mWindowSize\<close> and \<open>mWindowTypes\<close> of the class carry the prefix \<open>mProfile\<close> here,
  their names being those of fields of the settings and the worker.\<close>

definition new_Statistics :: "int \<Rightarrow> real \<Rightarrow> WindowTypes \<Rightarrow> Statistics" where
  "new_Statistics spectrumSize rate windowTypes =
     \<lparr>mRate = rate,
      mProfileWindowSize = (spectrumSize - 1) * 2,
      mProfileWindowTypes = windowTypes,
      mTotalWindows = 0,
      mTrackWindows = 0,
      mSums = replicate (nat spectrumSize) 0,
      mMeans = replicate (nat spectrumSize) 0,
      mNoiseThreshold = replicate (nat spectrumSize) 0\<rparr>"

subsection \<open>Settings\<close>

record Settings =
  mDoProfile :: bool
  mSensitivity :: real
  mFreqSmoothingHz :: real
  mNoiseGain :: real
  mAttackTime :: real
  mReleaseTime :: real
  mNewSensitivity :: real
  mNoiseReductionChoice :: int
  mWindowTypes :: WindowTypes
  mWindowSizeChoice :: nat
  mStepsPerWindowChoice :: nat
  mMethod :: int

definition WindowSize :: "Settings \<Rightarrow> int" where
  "WindowSize s = 2 ^ (3 + mWindowSizeChoice s)"

definition StepsPerWindow :: "Settings \<Rightarrow> int" where
  "StepsPerWindow s = 2 ^ (1 + mStepsPerWindowChoice s)"

text \<open>\<open>Settings::Validate\<close>. Each \<open>return false\<close> follows a message box, which is
  not part of the embedding.\<close>

definition Validate :: "Settings \<Rightarrow> bool" where
  "Validate s =
     (if StepsPerWindow s < minSteps (windowTypesInfo (mWindowTypes s)) then False
      else if StepsPerWindow s > WindowSize s then False
      else if mMethod s = DM_MEDIAN \<and> StepsPerWindow s > 4 then False
      else True)"

subsection \<open>The dialog's use of validation\<close>

text \<open>What a button handler of the dialog does: it ends the modal dialog with a
  return code (1 starts profiling, 2 starts the reduction), it runs the preview, or it
  returns with nothing done.\<close>

datatype DialogAction = EndModal int | Preview | NoAction

text \<open>\<open>Dialog::OnNoiseReductionChoice\<close> reads the radio buttons (the parameters
  \<open>keepSignal\<close> and \<open>keepNoise\<close>).\<close>

definition OnNoiseReductionChoice :: "bool \<Rightarrow> bool \<Rightarrow> Settings \<Rightarrow> Settings" where
  "OnNoiseReductionChoice keepSignal keepNoise tempSettings =
     (if keepSignal then tempSettings\<lparr>mNoiseReductionChoice := NRC_REDUCE_NOISE\<rparr>
      else if keepNoise then tempSettings\<lparr>mNoiseReductionChoice := NRC_ISOLATE_NOISE\<rparr>
      else tempSettings\<lparr>mNoiseReductionChoice := NRC_LEAVE_RESIDUE\<rparr>)"

text \<open>\<open>Dialog::TransferDataFromWindow\<close>. The base class method
  \<open>EffectDialog::TransferDataFromWindow\<close> is not among the sources: \<open>base\<close> is its
  result and \<open>tempSettings\<close> the temporary settings it leaves.\<close>

definition TransferDataFromWindow :: "bool \<Rightarrow> bool \<Rightarrow> bool \<Rightarrow> Settings \<Rightarrow> bool" where
  "TransferDataFromWindow base keepSignal keepNoise tempSettings =
     (if \<not> base then False
      else Validate (OnNoiseReductionChoice keepSignal keepNoise tempSettings))"

definition OnGetProfile :: "bool \<Rightarrow> bool \<Rightarrow> bool \<Rightarrow> Settings \<Rightarrow> DialogAction" where
  "OnGetProfile base keepSignal keepNoise tempSettings =
     (if \<not> TransferDataFromWindow base keepSignal keepNoise tempSettings then NoAction
      else EndModal 1)"

definition OnPreview :: "bool \<Rightarrow> bool \<Rightarrow> bool \<Rightarrow> Settings \<Rightarrow> DialogAction" where
  "OnPreview base keepSignal keepNoise tempSettings =
     (if \<not> TransferDataFromWindow base keepSignal keepNoise tempSettings then NoAction
      else Preview)"

definition OnReduceNoise :: "bool \<Rightarrow> bool \<Rightarrow> bool \<Rightarrow> Settings \<Rightarrow> DialogAction" where
  "OnReduceNoise base keepSignal keepNoise tempSettings =
     (if \<not> TransferDataFromWindow base keepSignal keepNoise tempSettings then NoAction
      else EndModal 2)"

subsection \<open>The worker\<close>

record Record =
  mSpectrums :: FloatVector
  mGains :: FloatVector
  mRealFFTs :: FloatVector
  mImagFFTs :: FloatVector

definition new_Record :: "int \<Rightarrow> Record" where
  "new_Record spectrumSize =
     \<lparr>mSpectrums = replicate (nat spectrumSize) 0,
      mGains = replicate (nat spectrumSize) 0,
      mRealFFTs = replicate (nat (spectrumSize - 1)) 0,
      mImagFFTs = replicate (nat (spectrumSize - 1)) 0\<rparr>"

record HFFT =
  BitReversed :: "int list"
  RealFFTf :: "FloatVector \<Rightarrow> FloatVector"
  InverseRealFFTf :: "FloatVector \<Rightarrow> FloatVector"

text \<open>The worker's fields \<open>mDoProfile\<close>, \<open>mNoiseReductionChoice\<close>, \<open>mMethod\<close> and
  \<open>mNewSensitivity\<close> are written with \<open>w\<close> for \<open>m\<close>: the settings have fields of
  these names.\<close>

record Worker =
  wDoProfile :: bool
  mSampleRate :: real
  mWindowSize :: int
  hFFT :: HFFT
  mFFTBuffer :: FloatVector
  mInWaveBuffer :: FloatVector
  mOutOverlapBuffer :: FloatVector
  mInWindow :: FloatVector
  mOutWindow :: FloatVector
  mSpectrumSize :: int
  mFreqSmoothingScratch :: FloatVector
  mFreqSmoothingBins :: int
  mBinLow :: int
  mBinHigh :: int
  wNoiseReductionChoice :: int
  mStepsPerWindow :: int
  mStepSize :: int
  wMethod :: int
  wNewSensitivity :: real
  mInSampleCount :: int
  mOutStepCount :: int
  mInWavePos :: int
  mOneBlockAttack :: real
  mOneBlockRelease :: real
  mNoiseAttenFactor :: real
  mSensitivityFactor :: real
  mNWindowsToExamine :: int
  mCenter :: int
  mHistoryLen :: int
  mQueue :: "Record list"

text \<open>The conversion \<open>(int)x\<close> of a floating point number: towards zero.\<close>

definition trunc :: "real \<Rightarrow> int" where
  "trunc x = (if 0 \<le> x then \<lfloor>x\<rfloor> else \<lceil>x\<rceil>)"

text \<open>The loop that creates a window of \<open>n\<close> samples from three coefficients and a
  scale factor; the constructor has it twice.\<close>

definition cosineWindow :: "real \<Rightarrow> real \<times> real \<times> real \<Rightarrow> int \<Rightarrow> FloatVector" where
  "cosineWindow m coefficients n =
     (case coefficients of (c0, c1, c2) \<Rightarrow>
        map (\<lambda>ii. m * (c0 + c1 * cos ((2 * pi * real ii) / real_of_int n)
                          + c2 * cos ((4 * pi * real ii) / real_of_int n)))
          [0..<nat n])"

text \<open>The constructor \<open>Worker::Worker\<close>. \<open>h\<close> is the handle that
  \<open>InitializeFFT(mWindowSize)\<close> returns; \<open>f0\<close> and \<open>f1\<close> are the bounds of the spectral
  selection (negative when there is none, which is also what a build without
  spectral editing computes).\<close>

definition new_Worker :: "HFFT \<Rightarrow> Settings \<Rightarrow> real \<Rightarrow> real \<Rightarrow> real \<Rightarrow> Worker" where
  "new_Worker h settings sampleRate f0 f1 =
     (let windowSize = WindowSize settings;
          spectrumSize = 1 + windowSize div 2;
          stepsPerWindow = StepsPerWindow settings;
          stepSize = windowSize div stepsPerWindow;
          bin = sampleRate / real_of_int windowSize;
          noiseGain = - mNoiseGain settings;
          nAttackBlocks = 1 + trunc (mAttackTime settings * sampleRate / real_of_int stepSize);
          nReleaseBlocks = 1 + trunc (mReleaseTime settings * sampleRate / real_of_int stepSize);
          nWindowsToExamine =
            (if mMethod settings = DM_OLD_METHOD
             then max 2 (trunc (minSignalTime * sampleRate / real_of_int stepSize))
             else 1 + stepsPerWindow);
          center = nWindowsToExamine div 2;
          historyLen =
            (if mDoProfile settings then nWindowsToExamine
             else max nWindowsToExamine (center + nAttackBlocks));
          info = windowTypesInfo (mWindowTypes settings);
          multiplier = 1 / (productConstantTerm info * real_of_int stepsPerWindow)
      in \<lparr>wDoProfile = mDoProfile settings,
          mSampleRate = sampleRate,
          mWindowSize = windowSize,
          hFFT = h,
          mFFTBuffer = replicate (nat windowSize) 0,
          mInWaveBuffer = replicate (nat windowSize) 0,
          mOutOverlapBuffer = replicate (nat windowSize) 0,
          mInWindow =
            (case mWindowTypes settings of
               WT_RECTANGULAR_HANN \<Rightarrow> []
             | _ \<Rightarrow>
                 cosineWindow
                   (if mWindowTypes settings = WT_HANN_RECTANGULAR then multiplier else 1)
                   (inCoefficients info) windowSize),
          mOutWindow =
            (if \<not> mDoProfile settings
             then (case mWindowTypes settings of
                     WT_HANN_RECTANGULAR \<Rightarrow> []
                   | _ \<Rightarrow> cosineWindow multiplier (outCoefficients info) windowSize)
             else []),
          mSpectrumSize = spectrumSize,
          mFreqSmoothingScratch = replicate (nat spectrumSize) 0,
          mFreqSmoothingBins =
            trunc (mFreqSmoothingHz settings * real_of_int windowSize / sampleRate),
          mBinLow = (if f0 \<ge> 0 then \<lfloor>f0 / bin\<rfloor> else 0),
          mBinHigh = (if f1 \<ge> 0 then \<lceil>f1 / bin\<rceil> else spectrumSize),
          wNoiseReductionChoice = mNoiseReductionChoice settings,
          mStepsPerWindow = stepsPerWindow,
          mStepSize = stepSize,
          wMethod = mMethod settings,
          wNewSensitivity = mNewSensitivity settings * ln 10,
          mInSampleCount = 0,
          mOutStepCount = 0,
          mInWavePos = 0,
          mOneBlockAttack = 10 powr (noiseGain / (20 * real_of_int nAttackBlocks)),
          mOneBlockRelease = 10 powr (noiseGain / (20 * real_of_int nReleaseBlocks)),
          mNoiseAttenFactor = 10 powr (noiseGain / 20),
          mSensitivityFactor = 10 powr (mSensitivity settings / 10),
          mNWindowsToExamine = nWindowsToExamine,
          mCenter = center,
          mHistoryLen = historyLen,
          mQueue = replicate (nat historyLen) (new_Record spectrumSize)\<rparr>)"

section \<open>Noise reduction: the operations\<close>

subsection \<open>Writing to vectors\<close>

text \<open>A loop \<open>for (i = start; i < finish; ++i) v[i] = f(i)\<close> whose right hand sides do
  not read what the loop writes, and \<open>std::fill(v + start, v + finish, x)\<close>.\<close>

definition assign :: "FloatVector \<Rightarrow> int \<Rightarrow> int \<Rightarrow> (nat \<Rightarrow> real) \<Rightarrow> FloatVector" where
  "assign v start finish f =
     map (\<lambda>i. if start \<le> int i \<and> int i < finish then f i else v ! i) [0..<length v]"

definition fill :: "FloatVector \<Rightarrow> int \<Rightarrow> int \<Rightarrow> real \<Rightarrow> FloatVector" where
  "fill v start finish x = assign v start finish (\<lambda>i. x)"

text \<open>\<open>memmove(&dst[pos], src, n * sizeof(float))\<close>, for a range inside \<open>dst\<close>.\<close>

definition memmove :: "FloatVector \<Rightarrow> int \<Rightarrow> FloatVector \<Rightarrow> int \<Rightarrow> FloatVector" where
  "memmove dst pos src n =
     take (nat pos) dst @ take (nat n) src @ drop (nat pos + nat n) dst"

subsection \<open>Starting a track\<close>

definition StartNewTrack :: "Worker \<Rightarrow> Worker" where
  "StartNewTrack w =
     w\<lparr>mQueue :=
         map (\<lambda>record.
                record\<lparr>mSpectrums := fill (mSpectrums record) 0 (mSpectrumSize w) 0,
                       mRealFFTs := fill (mRealFFTs record) 0 (mSpectrumSize w - 1) 0,
                       mImagFFTs := fill (mImagFFTs record) 0 (mSpectrumSize w - 1) 0,
                       mGains := fill (mGains record) 0 (mSpectrumSize w) (mNoiseAttenFactor w)\<rparr>)
           (mQueue w),
       mOutOverlapBuffer := fill (mOutOverlapBuffer w) 0 (mWindowSize w) 0,
       mInWaveBuffer := fill (mInWaveBuffer w) 0 (mWindowSize w) 0,
       mInWavePos := mWindowSize w - mStepSize w,
       mInSampleCount := 0,
       mOutStepCount := - (mHistoryLen w - 1) - (mStepsPerWindow w - 1)\<rparr>"

subsection \<open>Analysis of a window\<close>

definition FillFirstHistoryWindow :: "Worker \<Rightarrow> Worker" where
  "FillFirstHistoryWindow w =
     (let windowed =
            (if length (mInWindow w) > 0
             then assign (mFFTBuffer w) 0 (mWindowSize w)
                    (\<lambda>ii. mInWaveBuffer w ! ii * mInWindow w ! ii)
             else memmove (mFFTBuffer w) 0 (mInWaveBuffer w) (mWindowSize w));
          buffer = RealFFTf (hFFT w) windowed;
          record = mQueue w ! 0;
          lastBin = mSpectrumSize w - 1;
          kk = (\<lambda>ii. nat (BitReversed (hFFT w) ! ii));
          dc = buffer ! 0;
          nyquist = buffer ! 1;
          reals = (assign (mRealFFTs record) 1 lastBin (\<lambda>ii. buffer ! kk ii))[0 := dc];
          imags = (assign (mImagFFTs record) 1 lastBin (\<lambda>ii. buffer ! (kk ii + 1)))[0 := nyquist];
          powers =
            (assign (mSpectrums record) 1 lastBin
               (\<lambda>ii. buffer ! kk ii * buffer ! kk ii + buffer ! (kk ii + 1) * buffer ! (kk ii + 1)))
              [0 := dc * dc, nat lastBin := nyquist * nyquist];
          gains =
            (if wNoiseReductionChoice w \<noteq> NRC_ISOLATE_NOISE
             then fill (mGains record) 0 (mSpectrumSize w) (mNoiseAttenFactor w)
             else mGains record)
      in w\<lparr>mFFTBuffer := buffer,
           mQueue := (mQueue w)
             [0 := record\<lparr>mSpectrums := powers, mGains := gains,
                           mRealFFTs := reals, mImagFFTs := imags\<rparr>]\<rparr>)"

definition RotateHistoryWindows :: "Worker \<Rightarrow> Worker" where
  "RotateHistoryWindows w =
     (let save = mQueue w ! nat (mHistoryLen w - 1)
      in w\<lparr>mQueue := butlast (save # mQueue w)\<rparr>)"

subsection \<open>Profiling\<close>

definition GatherStatistics :: "Worker \<Rightarrow> Statistics \<Rightarrow> Statistics" where
  "GatherStatistics w statistics =
     (let finish = mHistoryLen w
      in statistics
         \<lparr>mTrackWindows := mTrackWindows statistics + 1,
          mSums :=
            assign (mSums statistics) 0 (mSpectrumSize w)
              (\<lambda>jj. mSums statistics ! jj + mSpectrums (mQueue w ! 0) ! jj),
          mNoiseThreshold :=
            assign (mNoiseThreshold statistics) 0 (mSpectrumSize w)
              (\<lambda>jj. max (mNoiseThreshold statistics ! jj)
                      (foldl (\<lambda>m ii. min m (mSpectrums (mQueue w ! ii) ! jj))
                         (mSpectrums (mQueue w ! 0) ! jj) [1..<nat finish]))\<rparr>)"

definition FinishTrackStatistics :: "Statistics \<Rightarrow> Statistics" where
  "FinishTrackStatistics statistics =
     (let windows = mTrackWindows statistics;
          multiplier = mTotalWindows statistics;
          denom = windows + multiplier;
          nn = int (length (mMeans statistics))
      in (if windows \<noteq> 0
          then statistics
               \<lparr>mMeans :=
                  assign (mMeans statistics) 0 nn
                    (\<lambda>ii. (mMeans statistics ! ii * real_of_int multiplier + mSums statistics ! ii)
                            / real_of_int denom),
                mSums := fill (mSums statistics) 0 nn 0\<rparr>
          else statistics)
         \<lparr>mTrackWindows := 0, mTotalWindows := denom\<rparr>)"

subsection \<open>Classification\<close>

text \<open>What \<open>Classify\<close> does: it returns a verdict, or it reaches \<open>wxASSERT(false)\<close>
  and then returns \<open>true\<close>.\<close>

datatype Classified = Returns bool | AssertFalse

fun isNoise :: "Classified \<Rightarrow> bool" where
  "isNoise (Returns b) = b"
| "isNoise AssertFalse = True"

text \<open>The bodies of the two loops that keep the greatest powers seen (\<open>pw\<close> is the
  local variable \<open>power\<close>).\<close>

fun keepTwo :: "real \<times> real \<Rightarrow> real \<Rightarrow> real \<times> real" where
  "keepTwo (greatest, second) pw =
     (if pw \<ge> greatest then (pw, greatest)
      else if pw \<ge> second then (greatest, pw)
      else (greatest, second))"

fun keepThree :: "real \<times> real \<times> real \<Rightarrow> real \<Rightarrow> real \<times> real \<times> real" where
  "keepThree (greatest, second, third) pw =
     (if pw \<ge> greatest then (pw, greatest, second)
      else if pw \<ge> second then (greatest, pw, second)
      else if pw \<ge> third then (greatest, second, pw)
      else (greatest, second, third))"

definition secondGreatest :: "Worker \<Rightarrow> Statistics \<Rightarrow> nat \<Rightarrow> Classified" where
  "secondGreatest w statistics band =
     (let (greatest, second) =
            foldl (\<lambda>acc ii. keepTwo acc (mSpectrums (mQueue w ! ii) ! band)) (0, 0)
              [0..<nat (mNWindowsToExamine w)]
      in Returns (second \<le> wNewSensitivity w * mMeans statistics ! band))"

definition Classify :: "Worker \<Rightarrow> Statistics \<Rightarrow> nat \<Rightarrow> Classified" where
  "Classify w statistics band =
     (if wMethod w = DM_OLD_METHOD then
        (let min0 = foldl (\<lambda>m ii. min m (mSpectrums (mQueue w ! ii) ! band))
                      (mSpectrums (mQueue w ! 0) ! band) [1..<nat (mNWindowsToExamine w)]
         in Returns (min0 \<le> mSensitivityFactor w * mNoiseThreshold statistics ! band))
      else if wMethod w = DM_MEDIAN then
        (if mNWindowsToExamine w = 3 then secondGreatest w statistics band
         else if mNWindowsToExamine w = 5 then
           (let (greatest, second, third) =
                  foldl (\<lambda>acc ii. keepThree acc (mSpectrums (mQueue w ! ii) ! band)) (0, 0, 0)
                    [0..<nat (mNWindowsToExamine w)]
            in Returns (third \<le> wNewSensitivity w * mMeans statistics ! band))
         else AssertFalse)
      else if wMethod w = DM_SECOND_GREATEST then secondGreatest w statistics band
      else AssertFalse)"

subsection \<open>Building the gains\<close>

text \<open>\<open>ApplyFreqSmoothing\<close> writes the scratch vector of the worker and the vector of
  gains it is given; it returns both here.\<close>

definition ApplyFreqSmoothing :: "Worker \<Rightarrow> FloatVector \<Rightarrow> Worker \<times> FloatVector" where
  "ApplyFreqSmoothing w gains =
     (if mFreqSmoothingBins w = 0 then (w, gains)
      else
        (let scratch0 = fill (mFreqSmoothingScratch w) 0 (mSpectrumSize w) 0;
             logs = assign gains 0 (mSpectrumSize w) (\<lambda>ii. ln (gains ! ii));
             scratch =
               assign scratch0 0 (mSpectrumSize w)
                 (\<lambda>ii. let j0 = max 0 (int ii - mFreqSmoothingBins w);
                           j1 = min (mSpectrumSize w - 1) (int ii + mFreqSmoothingBins w)
                       in foldl (\<lambda>acc jj. acc + logs ! jj) (scratch0 ! ii) [nat j0..<nat (j1 + 1)]
                          / real_of_int (j1 - j0 + 1))
         in (w\<lparr>mFreqSmoothingScratch := scratch\<rparr>,
             assign logs 0 (mSpectrumSize w) (\<lambda>ii. exp (scratch ! ii)))))"

text \<open>The first block of \<open>ReduceNoise\<close>: the gains of the center record.\<close>

definition centerGains :: "Worker \<Rightarrow> Statistics \<Rightarrow> Worker" where
  "centerGains w statistics =
     (let center = nat (mCenter w);
          record = mQueue w ! center;
          gains =
            (if wNoiseReductionChoice w = NRC_ISOLATE_NOISE then
               assign
                 (fill (fill (mGains record) 0 (mBinLow w) 0) (mBinHigh w) (mSpectrumSize w) 0)
                 (mBinLow w) (mBinHigh w)
                 (\<lambda>jj. if isNoise (Classify w statistics jj) then 1 else 0)
             else
               (let outside =
                      fill (fill (mGains record) 0 (mBinLow w) 1) (mBinHigh w) (mSpectrumSize w) 1
                in assign outside (mBinLow w) (mBinHigh w)
                     (\<lambda>jj. if \<not> isNoise (Classify w statistics jj) then 1 else outside ! jj)))
      in w\<lparr>mQueue := (mQueue w)[center := record\<lparr>mGains := gains\<rparr>]\<rparr>)"

text \<open>The attack: for the band \<open>jj\<close>, the loop over the records \<open>ii\<close> behind the
  center, which stops at the first record whose gain is high enough.\<close>

fun attackBand :: "Worker \<Rightarrow> nat \<Rightarrow> nat list \<Rightarrow> Record list \<Rightarrow> Record list" where
  "attackBand w jj [] queue = queue"
| "attackBand w jj (ii # rest) queue =
     (let minimum = max (mNoiseAttenFactor w) (mGains (queue ! (ii - 1)) ! jj * mOneBlockAttack w);
          gain = mGains (queue ! ii) ! jj
      in if gain < minimum
         then attackBand w jj rest
                (queue[ii := (queue ! ii)\<lparr>mGains := (mGains (queue ! ii))[jj := minimum]\<rparr>])
         else queue)"

definition attack :: "Worker \<Rightarrow> Worker" where
  "attack w =
     w\<lparr>mQueue :=
         foldl (\<lambda>queue jj. attackBand w jj [nat (mCenter w + 1)..<nat (mHistoryLen w)] queue)
           (mQueue w) [0..<nat (mSpectrumSize w)]\<rparr>"

text \<open>The release: one record ahead of the center.\<close>

definition release :: "Worker \<Rightarrow> Worker" where
  "release w =
     (let next = nat (mCenter w - 1);
          nextGain = mGains (mQueue w ! next);
          thisGain = mGains (mQueue w ! nat (mCenter w))
      in w\<lparr>mQueue := (mQueue w)
             [next := (mQueue w ! next)
                \<lparr>mGains :=
                   assign nextGain 0 (mSpectrumSize w)
                     (\<lambda>nn. max (nextGain ! nn)
                             (max (mNoiseAttenFactor w) (thisGain ! nn * mOneBlockRelease w)))\<rparr>]\<rparr>)"

text \<open>The gains of a frame: the part of \<open>ReduceNoise\<close> before the test of
  \<open>mOutStepCount\<close>.\<close>

definition buildGains :: "Worker \<Rightarrow> Statistics \<Rightarrow> Worker" where
  "buildGains w statistics =
     (let w1 = centerGains w statistics
      in if wNoiseReductionChoice w1 \<noteq> NRC_ISOLATE_NOISE then release (attack w1) else w1)"

subsection \<open>Synthesis\<close>

text \<open>The block "Apply gain to FFT": the buffer that the inverse transform is given.
  Position \<open>2 * k\<close> holds the real and \<open>2 * k + 1\<close> the imaginary part of bin \<open>k\<close>, for
  \<open>k\<close> from 1 to \<open>mSpectrumSize - 2\<close>; position 0 is the DC bin and position 1 the bin
  at half the sample rate.\<close>

definition applyGain :: "Worker \<Rightarrow> Record \<Rightarrow> FloatVector" where
  "applyGain w record =
     (let lastBin = mSpectrumSize w - 1;
          gain =
            (\<lambda>k. if wNoiseReductionChoice w = NRC_LEAVE_RESIDUE
                 then mGains record ! k - 1 else mGains record ! k)
      in (assign (mFFTBuffer w) 2 (2 + 2 * (mSpectrumSize w - 2))
            (\<lambda>i. if even i then mRealFFTs record ! (i div 2) * gain (i div 2)
                 else mImagFFTs record ! (i div 2) * gain (i div 2)))
         [0 := mRealFFTs record ! 0 * gain 0,
          1 := mImagFFTs record ! 0 * gain (nat lastBin)])"

text \<open>The overlap-add of the transformed buffer into \<open>mOutOverlapBuffer\<close>.\<close>

definition overlapAdd :: "Worker \<Rightarrow> FloatVector \<Rightarrow> FloatVector" where
  "overlapAdd w buffer =
     (let lastBin = mSpectrumSize w - 1;
          sample = (\<lambda>i. buffer ! (nat (BitReversed (hFFT w) ! (i div 2)) + i mod 2))
      in if length (mOutWindow w) > 0
         then assign (mOutOverlapBuffer w) 0 (2 * lastBin)
                (\<lambda>i. mOutOverlapBuffer w ! i + sample i * mOutWindow w ! i)
         else assign (mOutOverlapBuffer w) 0 (2 * lastBin)
                (\<lambda>i. mOutOverlapBuffer w ! i + sample i))"

text \<open>The rest of \<open>ReduceNoise\<close>. The output track is the vector of the samples
  appended to it.\<close>

definition synthesize :: "Worker \<Rightarrow> FloatVector \<Rightarrow> Worker \<times> FloatVector" where
  "synthesize w outputTrack =
     (if mOutStepCount w \<ge> - (mStepsPerWindow w - 1) then
        (let oldest = nat (mHistoryLen w - 1);
             (w1, gains) =
               (if wNoiseReductionChoice w \<noteq> NRC_ISOLATE_NOISE
                then ApplyFreqSmoothing w (mGains (mQueue w ! oldest))
                else (w, mGains (mQueue w ! oldest)));
             record = (mQueue w1 ! oldest)\<lparr>mGains := gains\<rparr>;
             buffer = InverseRealFFTf (hFFT w1) (applyGain w1 record);
             w2 = w1\<lparr>mQueue := (mQueue w1)[oldest := record], mFFTBuffer := buffer\<rparr>;
             overlap = overlapAdd w2 buffer;
             outputTrack' =
               (if mOutStepCount w2 \<ge> 0
                then outputTrack @ take (nat (mStepSize w2)) overlap
                else outputTrack);
             shifted =
               fill (memmove overlap 0 (drop (nat (mStepSize w2)) overlap)
                       (mWindowSize w2 - mStepSize w2))
                 (mWindowSize w2 - mStepSize w2) (mWindowSize w2) 0
         in (w2\<lparr>mOutOverlapBuffer := shifted\<rparr>, outputTrack'))
      else (w, outputTrack))"

definition ReduceNoise :: "Worker \<Rightarrow> Statistics \<Rightarrow> FloatVector \<Rightarrow> Worker \<times> FloatVector" where
  "ReduceNoise w statistics outputTrack = synthesize (buildGains w statistics) outputTrack"

subsection \<open>Feeding samples\<close>

type_synonym Pass = "Worker \<times> Statistics \<times> FloatVector"

text \<open>What \<open>ProcessSamples\<close> does when the window is full: the body of
  \<open>if (mInWavePos == mWindowSize)\<close>.\<close>

definition processWindow :: "Pass \<Rightarrow> Pass" where
  "processWindow pass =
     (case pass of (w, statistics, outputTrack) \<Rightarrow>
        (let w1 = FillFirstHistoryWindow w;
             (w2, statistics', outputTrack') =
               (if wDoProfile w1 then (w1, GatherStatistics w1 statistics, outputTrack)
                else (case ReduceNoise w1 statistics outputTrack of
                        (w', track') \<Rightarrow> (w', statistics, track')));
             w3 = RotateHistoryWindows (w2\<lparr>mOutStepCount := mOutStepCount w2 + 1\<rparr>)
         in (w3\<lparr>mInWaveBuffer :=
                   memmove (mInWaveBuffer w3) 0 (drop (nat (mStepSize w3)) (mInWaveBuffer w3))
                     (mWindowSize w3 - mStepSize w3),
                 mInWavePos := mInWavePos w3 - mStepSize w3\<rparr>,
             statistics', outputTrack')))"

text \<open>\<open>ProcessSamples\<close>. The loop need not end (a step size of 0 keeps it going), and a
  negative \<open>avail\<close> is a \<open>memmove\<close> of undefined behaviour: \<open>None\<close> stands for both.\<close>

partial_function (option) ProcessSamples :: "Pass \<Rightarrow> int \<Rightarrow> FloatVector \<Rightarrow> Pass option" where
  "ProcessSamples pass len buffer =
     (case pass of (w, statistics, outputTrack) \<Rightarrow>
        if len \<noteq> 0 \<and> mOutStepCount w * mStepSize w < mInSampleCount w then
          (let avail = min len (mWindowSize w - mInWavePos w)
           in if avail < 0 then None
              else
                (let w1 = w\<lparr>mInWaveBuffer := memmove (mInWaveBuffer w) (mInWavePos w) buffer avail,
                            mInWavePos := mInWavePos w + avail\<rparr>
                 in if mInWavePos w1 = mWindowSize w1
                    then ProcessSamples (processWindow (w1, statistics, outputTrack))
                           (len - avail) (drop (nat avail) buffer)
                    else ProcessSamples (w1, statistics, outputTrack)
                           (len - avail) (drop (nat avail) buffer)))
        else Some pass)"

text \<open>\<open>FinishTrack\<close>: blocks of \<open>mStepSize\<close> zeros until the output has caught up.\<close>

partial_function (option) FinishTrack :: "Pass \<Rightarrow> Pass option" where
  "FinishTrack pass =
     (case pass of (w, statistics, outputTrack) \<Rightarrow>
        if mOutStepCount w * mStepSize w < mInSampleCount w
        then Option.bind
               (ProcessSamples pass (mStepSize w) (replicate (nat (mStepSize w)) 0))
               FinishTrack
        else Some pass)"

text \<open>The loop of \<open>ProcessOne\<close> over the blocks of a track. A block comes with the answer
  of \<open>TrackProgress\<close> after it (\<open>True\<close>: the user cancelled); the result says whether the
  loop ended without a cancellation.\<close>

fun feed :: "Pass \<Rightarrow> (FloatVector \<times> bool) list \<Rightarrow> (Pass \<times> bool) option" where
  "feed pass [] = Some (pass, True)"
| "feed (w, statistics, outputTrack) ((buffer, cancelled) # blocks) =
     (case ProcessSamples
             (w\<lparr>mInSampleCount := mInSampleCount w + int (length buffer)\<rparr>, statistics, outputTrack)
             (int (length buffer)) buffer of
        None \<Rightarrow> None
      | Some pass' \<Rightarrow> if cancelled then Some (pass', False) else feed pass' blocks)"

text \<open>\<open>ProcessOne\<close>, for a track that is there. The last step of a reduction clears
  the output behind the length of the input.\<close>

definition ProcessOne ::
  "Worker \<Rightarrow> Statistics \<Rightarrow> (FloatVector \<times> bool) list \<Rightarrow> (Pass \<times> bool) option" where
  "ProcessOne w statistics blocks =
     (case feed (StartNewTrack w, statistics, []) blocks of
        None \<Rightarrow> None
      | Some ((w1, statistics1, outputTrack1), bLoopSuccess) \<Rightarrow>
          if \<not> bLoopSuccess then Some ((w1, statistics1, outputTrack1), False)
          else if wDoProfile w1
          then Some ((w1, FinishTrackStatistics statistics1, outputTrack1), True)
          else (case FinishTrack (w1, statistics1, outputTrack1) of
                  None \<Rightarrow> None
                | Some (w2, statistics2, outputTrack2) \<Rightarrow>
                    Some ((w2, statistics2,
                           take (nat (mInSampleCount w2)) outputTrack2), True)))"

subsection \<open>The tracks of a pass\<close>

text \<open>What \<open>Worker::Process\<close> reads of a track: its rate, whether the selection meets
  the track (\<open>t1 > t0\<close>), and the blocks that the loop of \<open>ProcessOne\<close> gets from it.\<close>

record TrackData =
  GetRate :: real
  selectionMeetsTrack :: bool
  trackBlocks :: "(FloatVector \<times> bool) list"

text \<open>The loop of \<open>Worker::Process\<close> over the tracks; the result holds the output track
  of every track processed.\<close>

fun processTracks ::
  "Worker \<Rightarrow> Statistics \<Rightarrow> TrackData list \<Rightarrow>
     (bool \<times> Worker \<times> Statistics \<times> FloatVector list) option" where
  "processTracks w statistics [] = Some (True, w, statistics, [])"
| "processTracks w statistics (track # tracks) =
     (if GetRate track \<noteq> mSampleRate w then Some (False, w, statistics, [])
      else if selectionMeetsTrack track then
        (case ProcessOne w statistics (trackBlocks track) of
           None \<Rightarrow> None
         | Some ((w', statistics', outputTrack), bLoopSuccess) \<Rightarrow>
             if \<not> bLoopSuccess then Some (False, w', statistics', [])
             else (case processTracks w' statistics' tracks of
                     None \<Rightarrow> None
                   | Some (result, w'', statistics'', outputs) \<Rightarrow>
                       Some (result, w'', statistics'', outputTrack # outputs)))
      else processTracks w statistics tracks)"

definition Process ::
  "Worker \<Rightarrow> Statistics \<Rightarrow> TrackData list \<Rightarrow>
     (bool \<times> Worker \<times> Statistics \<times> FloatVector list) option" where
  "Process w statistics tracks =
     (case processTracks w statistics tracks of
        None \<Rightarrow> None
      | Some (result, w', statistics', outputs) \<Rightarrow>
          if \<not> result then Some (False, w', statistics', outputs)
          else if wDoProfile w' \<and> mTotalWindows statistics' = 0
          then Some (False, w', statistics', outputs)
          else Some (True, w', statistics', outputs))"

subsection \<open>The states of a pass over a track\<close>

text \<open>The states that \<open>ProcessOne\<close> goes through on a track, one statement of
  \<open>ProcessOne\<close> or of the loop of \<open>ProcessSamples\<close> at a time: the start of the track, the
  count of a block of input, the copy of \<open>avail\<close> samples into the window, and the
  processing of a full window.\<close>

inductive_set reachable :: "Worker \<Rightarrow> Statistics \<Rightarrow> Pass set"
  for w0 :: Worker and statistics0 :: Statistics where
  started: "(StartNewTrack w0, statistics0, []) \<in> reachable w0 statistics0"
| counted:
    "(w, statistics, outputTrack) \<in> reachable w0 statistics0 \<Longrightarrow>
     (w\<lparr>mInSampleCount := mInSampleCount w + blockSize\<rparr>, statistics, outputTrack)
       \<in> reachable w0 statistics0"
| copied:
    "(w, statistics, outputTrack) \<in> reachable w0 statistics0 \<Longrightarrow>
     0 \<le> avail \<Longrightarrow> avail \<le> mWindowSize w - mInWavePos w \<Longrightarrow>
     (w\<lparr>mInWaveBuffer := memmove (mInWaveBuffer w) (mInWavePos w) buffer avail,
        mInWavePos := mInWavePos w + avail\<rparr>, statistics, outputTrack)
       \<in> reachable w0 statistics0"
| windowed:
    "(w, statistics, outputTrack) \<in> reachable w0 statistics0 \<Longrightarrow>
     mInWavePos w = mWindowSize w \<Longrightarrow>
     processWindow (w, statistics, outputTrack) \<in> reachable w0 statistics0"

text \<open>What the constructor establishes for settings that \<open>Validate\<close> accepts and that
  lie in the ranges of the dialog's controls, and what no operation changes: the sizes
  of the vectors and of the queue, the position of the center, and the range of the
  attenuation factor.\<close>

definition wellFormed :: "Worker \<Rightarrow> bool" where
  "wellFormed w \<longleftrightarrow>
     1 \<le> mStepSize w \<and> mStepSize w \<le> mWindowSize w \<and>
     1 \<le> mStepsPerWindow w \<and>
     2 \<le> mSpectrumSize w \<and>
     0 \<le> mFreqSmoothingBins w \<and>
     1 \<le> mCenter w \<and> mCenter w < mHistoryLen w \<and>
     0 < mNoiseAttenFactor w \<and> mNoiseAttenFactor w \<le> 1 \<and>
     length (mFreqSmoothingScratch w) = nat (mSpectrumSize w) \<and>
     length (mQueue w) = nat (mHistoryLen w) \<and>
     list_all (\<lambda>record. length (mGains record) = nat (mSpectrumSize w)) (mQueue w)"

subsection \<open>Settings and a transform handle to run the definitions on\<close>

text \<open>The default values of the preferences table in \<open>PrefsIO\<close>, in a freshly
  constructed \<open>Settings\<close>.\<close>

definition defaultSettings :: Settings where
  "defaultSettings =
     \<lparr>mDoProfile = True, mSensitivity = 0, mFreqSmoothingHz = 150, mNoiseGain = 24,
      mAttackTime = 15 / 100, mReleaseTime = 15 / 100, mNewSensitivity = 6,
      mNoiseReductionChoice = NRC_REDUCE_NOISE, mWindowTypes = WT_HANN_HANN,
      mWindowSizeChoice = 8, mStepsPerWindowChoice = 1, mMethod = DM_SECOND_GREATEST\<rparr>"

text \<open>A handle whose transforms leave the buffer as it is.\<close>

definition idleFFT :: HFFT where
  "idleFFT = \<lparr>BitReversed = [], RealFFTf = (\<lambda>buffer. buffer), InverseRealFFTf = (\<lambda>buffer. buffer)\<rparr>"

text \<open>Settings of a reduction with the old method and the largest window, and a
  record whose spectrum has the same power in every band.\<close>

definition oldSettings :: Settings where
  "oldSettings =
     defaultSettings\<lparr>mDoProfile := False, mMethod := DM_OLD_METHOD, mWindowSizeChoice := 11\<rparr>"

definition flatRecord :: "real \<Rightarrow> Record" where
  "flatRecord x =
     \<lparr>mSpectrums = replicate 8193 x, mGains = replicate 8193 1,
      mRealFFTs = replicate 8192 0, mImagFFTs = replicate 8192 0\<rparr>"

text \<open>Settings of a reduction with the smallest window (8 samples, 5 bands), and a
  record of that size whose bins are all \<open>1 + i\<close> and whose gains are all one half.\<close>

definition smallSettings :: Settings where
  "smallSettings =
     defaultSettings\<lparr>mDoProfile := False, mWindowTypes := WT_RECTANGULAR_HANN,
       mWindowSizeChoice := 0, mStepsPerWindowChoice := 0\<rparr>"

definition halfRecord :: Record where
  "halfRecord =
     \<lparr>mSpectrums = replicate 5 2, mGains = replicate 5 (1 / 2),
      mRealFFTs = replicate 4 1, mImagFFTs = replicate 4 1\<rparr>"

subsection \<open>The statistics of a profiling pass\<close>

text \<open>What a profiling pass does to the statistics. For every window of a track
  \<open>ProcessSamples\<close> calls \<open>GatherStatistics\<close> (the list \<open>windows\<close> holds the states of the
  worker at these calls, in order), and at the end of the track \<open>ProcessOne\<close> calls
  \<open>FinishTrackStatistics\<close>; a pass is a sequence of tracks. \<open>windowPower k w\<close> is the
  power of band \<open>k\<close> in the window that the worker \<open>w\<close> has just analysed.\<close>

definition gatherAll :: "Statistics \<Rightarrow> Worker list \<Rightarrow> Statistics" where
  "gatherAll statistics windows = foldl (\<lambda>st w. GatherStatistics w st) statistics windows"

definition profileTrack :: "Statistics \<Rightarrow> Worker list \<Rightarrow> Statistics" where
  "profileTrack statistics windows = FinishTrackStatistics (gatherAll statistics windows)"

definition profilePass :: "Statistics \<Rightarrow> Worker list list \<Rightarrow> Statistics" where
  "profilePass statistics tracks = foldl profileTrack statistics tracks"

definition windowPower :: "nat \<Rightarrow> Worker \<Rightarrow> real" where
  "windowPower k w = mSpectrums (mQueue w ! 0) ! k"

text \<open>A worker of a profiling pass with the smallest window (8 samples, 5 bands) whose
  newest window has the power \<open>x\<close> in every band.\<close>

definition profileWindow :: "real \<Rightarrow> Worker" where
  "profileWindow x =
     (new_Worker idleFFT (smallSettings\<lparr>mDoProfile := True\<rparr>) 44100 (- 1) (- 1))
       \<lparr>mQueue := [\<lparr>mSpectrums = replicate 5 x, mGains = replicate 5 1,
                    mRealFFTs = replicate 4 0, mImagFFTs = replicate 4 0\<rparr>]\<rparr>"

subsection \<open>The flow of samples\<close>

text \<open>What holds of the counters of the worker whenever \<open>ProcessSamples\<close> tests the
  condition of its loop: the window is not full, at most \<open>mStepSize\<close> samples of it
  are still to come, and the output is less than one step ahead of the input.\<close>

definition flowing :: "Worker \<Rightarrow> bool" where
  "flowing w \<longleftrightarrow>
     1 \<le> mStepSize w \<and> mStepSize w \<le> mWindowSize w \<and>
     mWindowSize w - mStepSize w \<le> mInWavePos w \<and> mInWavePos w < mWindowSize w \<and>
     mOutStepCount w * mStepSize w < mInSampleCount w + mStepSize w"

text \<open>The default settings of a reduction.\<close>

definition reduceSettings :: Settings where
  "reduceSettings = defaultSettings\<lparr>mDoProfile := False\<rparr>"

subsection \<open>Fields that change and fields that do not\<close>

text \<open>The fields that the constructor sets and that no operation writes, and the three
  counters of the worker.\<close>

definition fixedFields ::
  "Worker \<Rightarrow> (bool \<times> int \<times> int \<times> int \<times> int \<times> int) \<times>
            (int \<times> int \<times> int \<times> int \<times> int \<times> int \<times> int) \<times>
            (real \<times> real \<times> real \<times> real \<times> real) \<times> HFFT \<times> FloatVector \<times> FloatVector" where
  "fixedFields w =
     ((wDoProfile w, mWindowSize w, mSpectrumSize w, mFreqSmoothingBins w, mBinLow w, mBinHigh w),
      (wNoiseReductionChoice w, mStepsPerWindow w, mStepSize w, wMethod w,
       mNWindowsToExamine w, mCenter w, mHistoryLen w),
      (wNewSensitivity w, mOneBlockAttack w, mOneBlockRelease w, mNoiseAttenFactor w,
       mSensitivityFactor w),
      hFFT w, mInWindow w, mOutWindow w)"

definition counters :: "Worker \<Rightarrow> int \<times> int \<times> int" where
  "counters w = (mInSampleCount w, mOutStepCount w, mInWavePos w)"

subsection \<open>Bounds on the gains\<close>

text \<open>Every gain of every record of the queue is at least \<open>mNoiseAttenFactor\<close>.\<close>

definition gainsAbove :: "Worker \<Rightarrow> bool" where
  "gainsAbove w \<longleftrightarrow>
     list_all (\<lambda>record. list_all (\<lambda>gain. mNoiseAttenFactor w \<le> gain) (mGains record)) (mQueue w)"

text \<open>A vector of gains that are all 0 or 1.\<close>

definition zeroOrOne :: "FloatVector \<Rightarrow> bool" where
  "zeroOrOne gains \<longleftrightarrow> list_all (\<lambda>gain. gain = 0 \<or> gain = 1) gains"

text \<open>The records behind the center that have been at the center since the track was
  started have gains that are all 0 or 1. \<open>StartNewTrack\<close> sets \<open>mOutStepCount\<close> to
  \<open>- (mHistoryLen - 1) - (mStepsPerWindow - 1)\<close>, and every window adds 1 to it and moves
  every record one place towards the end of the queue: the record at the place \<open>k\<close> was
  at the center \<open>k - mCenter\<close> windows ago.\<close>

definition isolated :: "Worker \<Rightarrow> bool" where
  "isolated w \<longleftrightarrow>
     list_all (\<lambda>k. zeroOrOne (mGains (mQueue w ! k)))
       (filter (\<lambda>k. int k - mCenter w \<le>
                       mOutStepCount w + (mHistoryLen w - 1) + (mStepsPerWindow w - 1))
          [nat (mCenter w + 1)..<nat (mHistoryLen w)])"

text \<open>One turn of the loop of \<open>ProcessSamples\<close> on a worker whose window lacks one step:
  \<open>mStepSize\<close> samples of the buffer fill the window, which is processed.\<close>

definition nextWindow :: "Pass \<Rightarrow> FloatVector \<Rightarrow> Pass" where
  "nextWindow pass buffer =
     (case pass of (w, statistics, outputTrack) \<Rightarrow>
        processWindow
          (w\<lparr>mInWaveBuffer := memmove (mInWaveBuffer w) (mInWavePos w) buffer (mStepSize w),
             mInWavePos := mInWavePos w + mStepSize w\<rparr>, statistics, outputTrack))"

text \<open>Settings that isolate the noise, with the smallest window and no attack time: the
  queue has three records and the center is the second.\<close>

definition isolateSettings :: Settings where
  "isolateSettings =
     smallSettings\<lparr>mAttackTime := 0, mNoiseReductionChoice := NRC_ISOLATE_NOISE\<rparr>"

text \<open>The state of a pass with these settings after two windows of four samples each.\<close>

definition isolateExample :: Pass where
  "isolateExample =
     nextWindow
       (nextWindow
          (StartNewTrack (new_Worker idleFFT isolateSettings 44100 (- 1) (- 1)),
           new_Statistics 5 44100 WT_RECTANGULAR_HANN, [])
          (replicate 4 1))
       (replicate 4 (1 / 2))"

section \<open>Validation of the settings\<close>

text \<open>
  C8. \<open>Validate\<close> returns true exactly when the steps per window are at least the
  minimum of the window type, are at most the window size, and are at most 4 if the
  method is the median; when it returns false, none of the three buttons of the dialog
  (Get Noise Profile, Preview, OK) starts any processing.
\<close>

theorem Validate_iff:
  "(Validate s \<longleftrightarrow>
      minSteps (windowTypesInfo (mWindowTypes s)) \<le> StepsPerWindow s \<and>
      StepsPerWindow s \<le> WindowSize s \<and>
      (mMethod s = DM_MEDIAN \<longrightarrow> StepsPerWindow s \<le> 4)) \<and>
   (\<not> Validate s \<longrightarrow>
      OnGetProfile base keepSignal keepNoise s = NoAction \<and>
      OnPreview base keepSignal keepNoise s = NoAction \<and>
      OnReduceNoise base keepSignal keepNoise s = NoAction)"
proof -
  have same: "Validate (OnNoiseReductionChoice keepSignal keepNoise s) = Validate s"
    by (simp add: Validate_def OnNoiseReductionChoice_def StepsPerWindow_def WindowSize_def
        del: power_Suc)
  show ?thesis
    unfolding OnGetProfile_def OnPreview_def OnReduceNoise_def TransferDataFromWindow_def same
    by (auto simp: Validate_def)
qed

theorem Validate_iff_witness:
  "\<not> Validate (defaultSettings\<lparr>mMethod := DM_MEDIAN, mStepsPerWindowChoice := 2\<rparr>) \<and>
   mMethod (defaultSettings\<lparr>mMethod := DM_MEDIAN, mStepsPerWindowChoice := 2\<rparr>) = DM_MEDIAN \<and>
   StepsPerWindow (defaultSettings\<lparr>mMethod := DM_MEDIAN, mStepsPerWindowChoice := 2\<rparr>) = 8 \<and>
   OnReduceNoise True True False
     (defaultSettings\<lparr>mMethod := DM_MEDIAN, mStepsPerWindowChoice := 2\<rparr>) = NoAction \<and>
   Validate defaultSettings"
  using Validate_iff [of "defaultSettings\<lparr>mMethod := DM_MEDIAN, mStepsPerWindowChoice := 2\<rparr>"
      True True False]
    Validate_iff [of defaultSettings]
  by (simp add: defaultSettings_def StepsPerWindow_def WindowSize_def DM_MEDIAN_def
      DM_SECOND_GREATEST_def)

section \<open>What the constructor computes\<close>

lemma new_Worker_method [simp]: "wMethod (new_Worker h s rate f0 f1) = mMethod s"
  by (simp add: new_Worker_def Let_def)

lemma new_Worker_examine:
  "mNWindowsToExamine (new_Worker h s rate f0 f1) =
     (if mMethod s = DM_OLD_METHOD
      then max 2 (trunc (minSignalTime * rate / real_of_int (WindowSize s div StepsPerWindow s)))
      else 1 + StepsPerWindow s)"
  by (simp add: new_Worker_def Let_def)

lemma new_Worker_history:
  "mHistoryLen (new_Worker h s rate f0 f1) =
     (if mDoProfile s then mNWindowsToExamine (new_Worker h s rate f0 f1)
      else max (mNWindowsToExamine (new_Worker h s rate f0 f1))
             (mNWindowsToExamine (new_Worker h s rate f0 f1) div 2 +
              (1 + trunc (mAttackTime s * rate / real_of_int (WindowSize s div StepsPerWindow s)))))"
  by (simp add: new_Worker_def Let_def)

lemma new_Worker_sensitivity:
  "mSensitivityFactor (new_Worker h s rate f0 f1) = 10 powr (mSensitivity s / 10)"
  by (simp add: new_Worker_def Let_def)

lemma new_Worker_sensitivity_update:
  "new_Worker h (s\<lparr>mNewSensitivity := x\<rparr>) rate f0 f1 =
     (new_Worker h s rate f0 f1)\<lparr>wNewSensitivity := x * ln 10\<rparr>"
  by (simp add: new_Worker_def Let_def WindowSize_def StepsPerWindow_def)

lemma oldSettings_worker:
  "mNWindowsToExamine (new_Worker idleFFT oldSettings 44100 (- 1) (- 1)) = 2"
  "mHistoryLen (new_Worker idleFFT oldSettings 44100 (- 1) (- 1)) = 3"
  "mSensitivityFactor (new_Worker idleFFT oldSettings 44100 (- 1) (- 1)) = 1"
  "Validate oldSettings"
  "mMethod oldSettings = DM_OLD_METHOD"
  by (simp_all add: new_Worker_examine new_Worker_history new_Worker_sensitivity oldSettings_def
      defaultSettings_def StepsPerWindow_def WindowSize_def trunc_def minSignalTime_def
      Validate_def DM_OLD_METHOD_def DM_MEDIAN_def)

section \<open>The classifier\<close>

lemma StepsPerWindow_Median:
  assumes "Validate s" "mMethod s = DM_MEDIAN"
  shows "StepsPerWindow s = 2 \<or> StepsPerWindow s = 4"
proof -
  from assms have le: "StepsPerWindow s \<le> 4"
    by (simp add: Validate_def split: if_splits)
  then have "(2::int) ^ (1 + mStepsPerWindowChoice s) \<le> 2 ^ 2"
    by (simp add: StepsPerWindow_def)
  then have "1 + mStepsPerWindowChoice s \<le> 2"
    by (simp only: power_increasing_iff)
  then have "mStepsPerWindowChoice s = 0 \<or> mStepsPerWindowChoice s = 1" by arith
  then show ?thesis by (auto simp: StepsPerWindow_def)
qed

text \<open>
  What \<open>Validate\<close> does ensure: for settings that it accepts and whose method is one of
  the three enumerated methods, no worker with the method and the number of windows to
  examine that the constructor computes reaches an assertion of \<open>Classify\<close>; with the
  median method the number of windows to examine is 3 or 5.
\<close>

theorem Classify_asserts_unreachable:
  assumes "Validate s"
    and "mMethod s = DM_MEDIAN \<or> mMethod s = DM_SECOND_GREATEST \<or> mMethod s = DM_OLD_METHOD"
    and "wMethod w = wMethod (new_Worker h s rate f0 f1)"
    and "mNWindowsToExamine w = mNWindowsToExamine (new_Worker h s rate f0 f1)"
  shows "(mMethod s = DM_MEDIAN \<longrightarrow> mNWindowsToExamine w = 3 \<or> mNWindowsToExamine w = 5) \<and>
         Classify w statistics band \<noteq> AssertFalse"
proof -
  have median: "mNWindowsToExamine w = 3 \<or> mNWindowsToExamine w = 5" if m: "mMethod s = DM_MEDIAN"
  proof -
    from m have "mMethod s \<noteq> DM_OLD_METHOD" by (simp add: DM_MEDIAN_def DM_OLD_METHOD_def)
    then have "mNWindowsToExamine w = 1 + StepsPerWindow s"
      using assms(4) by (simp add: new_Worker_examine)
    with StepsPerWindow_Median [OF assms(1) m] show ?thesis by auto
  qed
  have "Classify w statistics band \<noteq> AssertFalse"
    using assms(2,3) median
    by (auto simp: Classify_def secondGreatest_def Let_def split: prod.splits)
  with median show ?thesis by blast
qed

theorem Classify_asserts_unreachable_witness:
  "Validate (defaultSettings\<lparr>mMethod := DM_MEDIAN\<rparr>) \<and>
   mMethod (defaultSettings\<lparr>mMethod := DM_MEDIAN\<rparr>) = DM_MEDIAN \<and>
   (mNWindowsToExamine
      (new_Worker idleFFT (defaultSettings\<lparr>mMethod := DM_MEDIAN\<rparr>) 44100 (- 1) (- 1)) = 3 \<or>
    mNWindowsToExamine
      (new_Worker idleFFT (defaultSettings\<lparr>mMethod := DM_MEDIAN\<rparr>) 44100 (- 1) (- 1)) = 5) \<and>
   Classify (new_Worker idleFFT (defaultSettings\<lparr>mMethod := DM_MEDIAN\<rparr>) 44100 (- 1) (- 1))
     (new_Statistics 1025 44100 WT_HANN_HANN) 0 \<noteq> AssertFalse"
proof -
  have v: "Validate (defaultSettings\<lparr>mMethod := DM_MEDIAN\<rparr>)"
    by (simp add: Validate_def defaultSettings_def StepsPerWindow_def WindowSize_def)
  have m: "mMethod (defaultSettings\<lparr>mMethod := DM_MEDIAN\<rparr>) = DM_MEDIAN" by simp
  from Classify_asserts_unreachable
         [of "defaultSettings\<lparr>mMethod := DM_MEDIAN\<rparr>"
             "new_Worker idleFFT (defaultSettings\<lparr>mMethod := DM_MEDIAN\<rparr>) 44100 (- 1) (- 1)"
             idleFFT 44100 "- 1" "- 1" "new_Statistics 1025 44100 WT_HANN_HANN" 0]
       v m
  show ?thesis by simp
qed


lemma foldl_min_Min:
  "foldl (\<lambda>m ii. min m (f ii)) a is = Min (insert a (f ` set is))"
proof (induction "is" arbitrary: a)
  case Nil
  then show ?case by simp
next
  case (Cons i "is")
  have "Min (insert (min a (f i)) (f ` set is)) = Min (insert a (insert (f i) (f ` set is)))"
    by (cases "f ` set is = {}") (simp_all add: min.assoc)
  with Cons show ?case by simp
qed

lemma upt_1_2: "[Suc 0..<2] = [Suc 0]"
  by (simp add: numeral_2_eq_2)

lemma upt_0_5: "[0..<5] = [0, 1, 2, 3, 4::nat]"
  by code_simp

lemma below_2: "{0..<2::nat} = {0, 1}"
  by auto

lemma below_3: "{0..<3::nat} = {0, 1, 2}"
  by auto

text \<open>
  C2 (as amended). With the old method, \<open>Classify\<close> returns "is noise" for a band exactly
  when the least power of the band in the slots 0 to \<open>mNWindowsToExamine - 1\<close> of the
  queue (the newest records; these are all the \<open>mHistoryLen\<close> slots only when the two
  numbers are equal) is at most the sensitivity factor times the noise threshold of
  the band.
\<close>

theorem Classify_old_method:
  assumes "wMethod w = DM_OLD_METHOD" and "1 \<le> mNWindowsToExamine w"
  shows "Classify w statistics band =
           Returns (Min ((\<lambda>ii. mSpectrums (mQueue w ! ii) ! band) ` {0..<nat (mNWindowsToExamine w)})
                      \<le> mSensitivityFactor w * mNoiseThreshold statistics ! band)"
proof -
  define f where "f = (\<lambda>ii. mSpectrums (mQueue w ! ii) ! band)"
  have slots: "insert 0 {1..<nat (mNWindowsToExamine w)} = {0..<nat (mNWindowsToExamine w)}"
    using assms(2) by auto
  have "insert (f 0) (f ` {1..<nat (mNWindowsToExamine w)}) =
          f ` insert 0 {1..<nat (mNWindowsToExamine w)}"
    by simp
  also have "\<dots> = f ` {0..<nat (mNWindowsToExamine w)}"
    by (simp only: slots)
  finally have "foldl (\<lambda>m ii. min m (f ii)) (f 0) [1..<nat (mNWindowsToExamine w)] =
                  Min (f ` {0..<nat (mNWindowsToExamine w)})"
    by (simp add: foldl_min_Min)
  then show ?thesis
    using assms(1) by (simp add: Classify_def Let_def f_def)
qed

theorem Classify_old_method_witness:
  "wMethod ((new_Worker idleFFT oldSettings 44100 (- 1) (- 1))
      \<lparr>mQueue := [flatRecord 5, flatRecord 5, flatRecord 1]\<rparr>) = DM_OLD_METHOD \<and>
   1 \<le> mNWindowsToExamine ((new_Worker idleFFT oldSettings 44100 (- 1) (- 1))
      \<lparr>mQueue := [flatRecord 5, flatRecord 5, flatRecord 1]\<rparr>) \<and>
   Classify ((new_Worker idleFFT oldSettings 44100 (- 1) (- 1))
      \<lparr>mQueue := [flatRecord 5, flatRecord 5, flatRecord 1]\<rparr>)
      ((new_Statistics 8193 44100 WT_HANN_HANN)\<lparr>mNoiseThreshold := replicate 8193 2\<rparr>) 0 =
     Returns False"
  using Classify_old_method
    [of "(new_Worker idleFFT oldSettings 44100 (- 1) (- 1))
           \<lparr>mQueue := [flatRecord 5, flatRecord 5, flatRecord 1]\<rparr>"
        "(new_Statistics 8193 44100 WT_HANN_HANN)\<lparr>mNoiseThreshold := replicate 8193 2\<rparr>" 0]
  by (simp add: oldSettings_worker flatRecord_def below_2)

text \<open>The statement with all the records of the queue (the least power over all
  \<open>mHistoryLen\<close> slots) fails for a reduction at 44100 Hz with the old method, a window of 16384 samples and the
  default attack time: the queue has 3 records, of which \<open>Classify\<close> examines 2. With
  powers 5, 5 and 1 in band 0 and a threshold of 2, the least power over all slots is
  below the threshold and \<open>Classify\<close> returns "not noise".\<close>

theorem Classify_old_method_counterexample:
  "Validate oldSettings \<and>
   mHistoryLen ((new_Worker idleFFT oldSettings 44100 (- 1) (- 1))
      \<lparr>mQueue := [flatRecord 5, flatRecord 5, flatRecord 1]\<rparr>) = 3 \<and>
   \<not> isNoise (Classify ((new_Worker idleFFT oldSettings 44100 (- 1) (- 1))
      \<lparr>mQueue := [flatRecord 5, flatRecord 5, flatRecord 1]\<rparr>)
      ((new_Statistics 8193 44100 WT_HANN_HANN)\<lparr>mNoiseThreshold := replicate 8193 2\<rparr>) 0) \<and>
   Min ((\<lambda>ii. mSpectrums (mQueue ((new_Worker idleFFT oldSettings 44100 (- 1) (- 1))
      \<lparr>mQueue := [flatRecord 5, flatRecord 5, flatRecord 1]\<rparr>) ! ii) ! 0) ` {0..<3})
     \<le> mSensitivityFactor ((new_Worker idleFFT oldSettings 44100 (- 1) (- 1))
      \<lparr>mQueue := [flatRecord 5, flatRecord 5, flatRecord 1]\<rparr>)
       * mNoiseThreshold
           ((new_Statistics 8193 44100 WT_HANN_HANN)\<lparr>mNoiseThreshold := replicate 8193 2\<rparr>) ! 0"
  by (simp add: oldSettings_worker Classify_def flatRecord_def upt_1_2 below_3)

lemma threshold_mono:
  fixes a b mean :: real
  assumes "a \<le> b" "0 \<le> mean" "x \<le> a * ln 10 * mean"
  shows "x \<le> b * ln 10 * mean"
proof -
  have "a * ln 10 \<le> b * ln 10"
    using assms(1) by (simp add: mult_right_mono)
  then have "a * ln 10 * mean \<le> b * ln 10 * mean"
    using assms(2) by (rule mult_right_mono)
  with assms(3) show ?thesis by linarith
qed

lemma Classify_sensitivity_mono:
  assumes "wMethod w1 = DM_MEDIAN \<or> wMethod w1 = DM_SECOND_GREATEST"
    and "wMethod w2 = wMethod w1"
    and "mNWindowsToExamine w2 = mNWindowsToExamine w1"
    and "mQueue w2 = mQueue w1"
    and "wNewSensitivity w1 = a * ln 10" and "wNewSensitivity w2 = b * ln 10"
    and "a \<le> b" and "0 \<le> mMeans statistics ! band"
    and "isNoise (Classify w1 statistics band)"
  shows "isNoise (Classify w2 statistics band)"
  using assms(1-6,9) threshold_mono [OF assms(7,8)]
  by (auto simp: Classify_def secondGreatest_def Let_def DM_MEDIAN_def DM_OLD_METHOD_def
      DM_SECOND_GREATEST_def split: prod.splits if_splits)

text \<open>
  C7. For a fixed queue and fixed statistics whose mean power in the band is not
  negative (a mean of powers never is), with the median or the second greatest method:
  a band that is classified as noise by the worker built for the new sensitivity \<open>lower\<close>
  is classified as noise by the worker built for any new sensitivity \<open>higher \<ge> lower\<close>.
\<close>

theorem Classify_monotone_in_new_sensitivity:
  assumes "mMethod s = DM_MEDIAN \<or> mMethod s = DM_SECOND_GREATEST"
    and "lower \<le> higher"
    and "0 \<le> mMeans statistics ! band"
    and "isNoise (Classify ((new_Worker h (s\<lparr>mNewSensitivity := lower\<rparr>) rate f0 f1)\<lparr>mQueue := queue\<rparr>)
           statistics band)"
  shows "isNoise (Classify ((new_Worker h (s\<lparr>mNewSensitivity := higher\<rparr>) rate f0 f1)\<lparr>mQueue := queue\<rparr>)
           statistics band)"
proof (rule Classify_sensitivity_mono [OF _ _ _ _ _ _ assms(2,3,4)])
  show "wMethod ((new_Worker h (s\<lparr>mNewSensitivity := lower\<rparr>) rate f0 f1)\<lparr>mQueue := queue\<rparr>) = DM_MEDIAN \<or>
        wMethod ((new_Worker h (s\<lparr>mNewSensitivity := lower\<rparr>) rate f0 f1)\<lparr>mQueue := queue\<rparr>) =
          DM_SECOND_GREATEST"
    using assms(1) by simp
qed (simp_all add: new_Worker_sensitivity_update)

theorem Classify_monotone_in_new_sensitivity_witness:
  "(mMethod defaultSettings = DM_MEDIAN \<or> mMethod defaultSettings = DM_SECOND_GREATEST) \<and>
   (1::real) \<le> 24 \<and>
   0 \<le> mMeans (new_Statistics 1025 44100 WT_HANN_HANN) ! 7 \<and>
   isNoise (Classify
     ((new_Worker idleFFT (defaultSettings\<lparr>mNewSensitivity := 1\<rparr>) 44100 (- 1) (- 1))
        \<lparr>mQueue := replicate 15 (new_Record 1025)\<rparr>)
     (new_Statistics 1025 44100 WT_HANN_HANN) 7) \<and>
   isNoise (Classify
     ((new_Worker idleFFT (defaultSettings\<lparr>mNewSensitivity := 24\<rparr>) 44100 (- 1) (- 1))
        \<lparr>mQueue := replicate 15 (new_Record 1025)\<rparr>)
     (new_Statistics 1025 44100 WT_HANN_HANN) 7)"
proof -
  have m: "mMethod defaultSettings = DM_MEDIAN \<or> mMethod defaultSettings = DM_SECOND_GREATEST"
    by (simp add: defaultSettings_def)
  have means: "0 \<le> mMeans (new_Statistics 1025 44100 WT_HANN_HANN) ! 7"
    by (simp add: new_Statistics_def)
  have examine:
    "mNWindowsToExamine (new_Worker idleFFT (defaultSettings\<lparr>mNewSensitivity := 1\<rparr>) 44100 (- 1) (- 1)) = 5"
    by (simp add: new_Worker_examine defaultSettings_def StepsPerWindow_def
        DM_SECOND_GREATEST_def DM_OLD_METHOD_def)
  have low: "isNoise (Classify
     ((new_Worker idleFFT (defaultSettings\<lparr>mNewSensitivity := 1\<rparr>) 44100 (- 1) (- 1))
        \<lparr>mQueue := replicate 15 (new_Record 1025)\<rparr>)
     (new_Statistics 1025 44100 WT_HANN_HANN) 7)"
  proof -
    have "mMethod defaultSettings = 1" by (simp add: defaultSettings_def DM_SECOND_GREATEST_def)
    then show ?thesis
      by (simp add: Classify_def secondGreatest_def examine new_Record_def upt_0_5
          new_Statistics_def DM_SECOND_GREATEST_def DM_OLD_METHOD_def DM_MEDIAN_def)
  qed
  from Classify_monotone_in_new_sensitivity
         [where s = defaultSettings and lower = 1 and higher = 24
            and statistics = "new_Statistics 1025 44100 WT_HANN_HANN" and band = 7
            and h = idleFFT and rate = 44100 and ?f0.0 = "- 1" and ?f1.0 = "- 1"
            and queue = "replicate 15 (new_Record 1025)", OF m _ means low]
       m means low
  show ?thesis by simp
qed

section \<open>Fields that the operations leave alone\<close>

lemma fixed_StartNewTrack [simp]: "fixedFields (StartNewTrack w) = fixedFields w"
  by (simp add: fixedFields_def StartNewTrack_def)

lemma fixed_Fill [simp]: "fixedFields (FillFirstHistoryWindow w) = fixedFields w"
  by (simp add: fixedFields_def FillFirstHistoryWindow_def Let_def)

lemma fixed_Rotate [simp]: "fixedFields (RotateHistoryWindows w) = fixedFields w"
  by (simp add: fixedFields_def RotateHistoryWindows_def Let_def)

lemma fixed_centerGains [simp]: "fixedFields (centerGains w st) = fixedFields w"
  by (simp add: fixedFields_def centerGains_def Let_def)

lemma fixed_attack [simp]: "fixedFields (attack w) = fixedFields w"
  by (simp add: fixedFields_def attack_def)

lemma fixed_release [simp]: "fixedFields (release w) = fixedFields w"
  by (simp add: fixedFields_def release_def Let_def)

lemma fixed_buildGains [simp]: "fixedFields (buildGains w st) = fixedFields w"
  by (simp add: buildGains_def Let_def)

lemma fixed_ApplyFreqSmoothing [simp]: "fixedFields (fst (ApplyFreqSmoothing w gains)) = fixedFields w"
  by (simp add: fixedFields_def ApplyFreqSmoothing_def Let_def)

lemma fixed_synthesize [simp]: "fixedFields (fst (synthesize w out)) = fixedFields w"
proof -
  have "fixedFields (fst (ApplyFreqSmoothing w gains)) = fixedFields w" for gains by simp
  then show ?thesis
    by (simp add: synthesize_def Let_def split_beta fixedFields_def)
qed

lemma fixed_ReduceNoise [simp]: "fixedFields (fst (ReduceNoise w st out)) = fixedFields w"
  by (simp add: ReduceNoise_def)

lemma fixed_processWindow [simp]: "fixedFields (fst (processWindow (w, st, out))) = fixedFields w"
proof -
  have "fixedFields (fst (ReduceNoise (FillFirstHistoryWindow w) st out)) = fixedFields w" by simp
  moreover have "fixedFields (FillFirstHistoryWindow w) = fixedFields w" by simp
  ultimately show ?thesis
    by (simp add: processWindow_def Let_def split_beta fixedFields_def RotateHistoryWindows_def)
qed

section \<open>The operations stay within the states of a pass\<close>

lemma ProcessSamples_reachable:
  assumes "ProcessSamples pass len buffer = Some pass'"
  shows "pass \<in> reachable w0 statistics0 \<Longrightarrow> pass' \<in> reachable w0 statistics0"
  using assms
proof (induction rule: ProcessSamples.raw_induct [rotated, consumes 1])
  case (1 loop pass len buffer pass')
  note IH = 1(1) and body = 1(2) and start = 1(3)
  obtain w st out where pass: "pass = (w, st, out)" by (cases pass)
  show ?case
  proof (cases "len \<noteq> 0 \<and> mOutStepCount w * mStepSize w < mInSampleCount w")
    case False
    with body pass have "pass' = pass" by auto
    with start show ?thesis by simp
  next
    case True
    define avail where "avail = min len (mWindowSize w - mInWavePos w)"
    define w1 where "w1 = w\<lparr>mInWaveBuffer := memmove (mInWaveBuffer w) (mInWavePos w) buffer avail,
                               mInWavePos := mInWavePos w + avail\<rparr>"
    from body pass True have nonneg: "0 \<le> avail"
      by (auto simp: avail_def Let_def split: if_splits)
    have "avail \<le> mWindowSize w - mInWavePos w" by (simp add: avail_def)
    with start pass nonneg have r1: "(w1, st, out) \<in> reachable w0 statistics0"
      unfolding w1_def by (auto intro: reachable.copied)
    show ?thesis
    proof (cases "mInWavePos w1 = mWindowSize w1")
      case full: True
      with body pass True nonneg
      have "loop (processWindow (w1, st, out)) (len - avail) (drop (nat avail) buffer) = Some pass'"
        by (simp add: Let_def avail_def [symmetric] w1_def [symmetric])
      moreover have "processWindow (w1, st, out) \<in> reachable w0 statistics0"
        using r1 full by (rule reachable.windowed)
      ultimately show ?thesis by (rule IH)
    next
      case part: False
      with body pass True nonneg
      have "loop (w1, st, out) (len - avail) (drop (nat avail) buffer) = Some pass'"
        by (simp add: Let_def avail_def [symmetric] w1_def [symmetric])
      then show ?thesis using r1 by (rule IH)
    qed
  qed
qed

lemma FinishTrack_reachable:
  assumes "FinishTrack pass = Some pass'"
  shows "pass \<in> reachable w0 statistics0 \<Longrightarrow> pass' \<in> reachable w0 statistics0"
  using assms
proof (induction rule: FinishTrack.raw_induct [rotated, consumes 1])
  case (1 loop pass pass')
  note IH = 1(1) and body = 1(2) and start = 1(3)
  obtain w st out where pass: "pass = (w, st, out)" by (cases pass)
  show ?case
  proof (cases "mOutStepCount w * mStepSize w < mInSampleCount w")
    case False
    with body pass have "pass' = pass" by auto
    with start show ?thesis by simp
  next
    case True
    with body pass obtain mid where
      mid: "ProcessSamples pass (mStepSize w) (replicate (nat (mStepSize w)) 0) = Some mid"
      and rest: "loop mid = Some pass'"
      by (auto simp: bind_eq_Some_conv)
    from mid start have "mid \<in> reachable w0 statistics0" by (rule ProcessSamples_reachable)
    with rest show ?thesis by (rule IH)
  qed
qed

lemma feed_reachable:
  assumes "feed pass blocks = Some (pass', ok)"
    and "pass \<in> reachable w0 statistics0"
  shows "pass' \<in> reachable w0 statistics0"
  using assms
proof (induction blocks arbitrary: pass)
  case Nil
  then show ?case by simp
next
  case (Cons block blocks)
  obtain w st out where pass: "pass = (w, st, out)" by (cases pass)
  obtain buffer cancelled where block: "block = (buffer, cancelled)" by (cases block)
  from Cons.prems(1) pass block obtain mid where
    mid: "ProcessSamples (w\<lparr>mInSampleCount := mInSampleCount w + int (length buffer)\<rparr>, st, out)
            (int (length buffer)) buffer = Some mid"
    and rest: "(if cancelled then Some (mid, False) else feed mid blocks) = Some (pass', ok)"
    by (auto split: option.splits)
  have "(w\<lparr>mInSampleCount := mInSampleCount w + int (length buffer)\<rparr>, st, out)
          \<in> reachable w0 statistics0"
    using Cons.prems(2) pass by (auto intro: reachable.counted)
  with mid have r: "mid \<in> reachable w0 statistics0" by (rule ProcessSamples_reachable)
  show ?case
  proof (cases cancelled)
    case True
    with rest r show ?thesis by simp
  next
    case False
    with rest have "feed mid blocks = Some (pass', ok)" by simp
    then show ?thesis using r by (rule Cons.IH)
  qed
qed

section \<open>The step count and the output track\<close>

lemma counters_Fill [simp]: "counters (FillFirstHistoryWindow w) = counters w"
  by (simp add: counters_def FillFirstHistoryWindow_def Let_def)

lemma counters_Rotate [simp]: "counters (RotateHistoryWindows w) = counters w"
  by (simp add: counters_def RotateHistoryWindows_def Let_def)

lemma counters_buildGains [simp]: "counters (buildGains w st) = counters w"
  by (simp add: counters_def buildGains_def centerGains_def attack_def release_def Let_def)

lemma counters_ApplyFreqSmoothing [simp]: "counters (fst (ApplyFreqSmoothing w gains)) = counters w"
  by (simp add: counters_def ApplyFreqSmoothing_def Let_def)

lemma counters_synthesize [simp]: "counters (fst (synthesize w out)) = counters w"
proof -
  have "counters (fst (ApplyFreqSmoothing w gains)) = counters w" for gains by simp
  then show ?thesis
    by (simp add: synthesize_def Let_def split_beta counters_def)
qed

lemma counters_ReduceNoise [simp]: "counters (fst (ReduceNoise w st out)) = counters w"
  by (simp add: ReduceNoise_def)

lemma counters_processWindow:
  "counters (fst (processWindow (w, st, out))) =
     (mInSampleCount w, mOutStepCount w + 1, mInWavePos w - mStepSize w)"
proof -
  have a: "counters (fst (ReduceNoise (FillFirstHistoryWindow w) st out)) = counters w" by simp
  have b: "counters (FillFirstHistoryWindow w) = counters w" by simp
  have c: "fixedFields (fst (ReduceNoise (FillFirstHistoryWindow w) st out)) = fixedFields w" by simp
  have d: "fixedFields (FillFirstHistoryWindow w) = fixedFields w" by simp
  show ?thesis
    using a b c d
    by (simp add: processWindow_def Let_def split_beta counters_def fixedFields_def
        RotateHistoryWindows_def)
qed

lemma track_synthesize:
  "snd (synthesize w out) =
     (if 0 \<le> mOutStepCount w \<and> - (mStepsPerWindow w - 1) \<le> mOutStepCount w
      then out @ take (nat (mStepSize w))
             (overlapAdd
                (fst (synthesize w out)\<lparr>mOutOverlapBuffer := mOutOverlapBuffer w\<rparr>)
                (mFFTBuffer (fst (synthesize w out))))
      else out)"
proof -
  have a: "counters (fst (ApplyFreqSmoothing w gains)) = counters w" for gains by simp
  have b: "fixedFields (fst (ApplyFreqSmoothing w gains)) = fixedFields w" for gains by simp
  have c: "mOutOverlapBuffer (fst (ApplyFreqSmoothing w gains)) = mOutOverlapBuffer w" for gains
    by (simp add: ApplyFreqSmoothing_def Let_def)
  show ?thesis
    using a b c
    by (simp add: synthesize_def Let_def split_beta counters_def fixedFields_def overlapAdd_def)
qed

lemma track_processWindow:
  "snd (snd (processWindow (w, st, out))) =
     (if wDoProfile w then out
      else snd (synthesize (buildGains (FillFirstHistoryWindow w) st) out))"
proof -
  have "fixedFields (FillFirstHistoryWindow w) = fixedFields w" by simp
  then show ?thesis
    by (simp add: processWindow_def Let_def split_beta fixedFields_def ReduceNoise_def)
qed

lemma reachable_track_nonempty:
  assumes "pass \<in> reachable w0 st0"
  shows "snd (snd pass) \<noteq> [] \<longrightarrow> 0 < mOutStepCount (fst pass)"
  using assms
proof (induction rule: reachable.induct)
  case started
  then show ?case by simp
next
  case (counted w st out blockSize)
  then show ?case by simp
next
  case (copied w st out avail buffer)
  then show ?case by simp
next
  case (windowed w st out)
  have count: "mOutStepCount (fst (processWindow (w, st, out))) = mOutStepCount w + 1"
    using counters_processWindow [of w st out] by (simp add: counters_def)
  have b: "counters (buildGains (FillFirstHistoryWindow w) st) = counters w" by simp
  show ?case
  proof (cases "out = []")
    case False
    with windowed.IH count show ?thesis by simp
  next
    case True
    have "0 \<le> mOutStepCount w" if "snd (snd (processWindow (w, st, out))) \<noteq> []"
      using that True b
      by (auto simp: track_processWindow track_synthesize counters_def split: if_splits)
    with count show ?thesis by auto
  qed
qed

lemma new_Worker_steps:
  "mStepsPerWindow (new_Worker h s rate f0 f1) = StepsPerWindow s"
  by (simp add: new_Worker_def Let_def)

lemma reduceSettings_worker:
  "mNWindowsToExamine (new_Worker idleFFT reduceSettings 44100 (- 1) (- 1)) = 5"
  "mHistoryLen (new_Worker idleFFT reduceSettings 44100 (- 1) (- 1)) = 15"
  "mStepsPerWindow (new_Worker idleFFT reduceSettings 44100 (- 1) (- 1)) = 4"
  "Validate reduceSettings"
  by (simp_all add: new_Worker_examine new_Worker_history new_Worker_steps reduceSettings_def
      defaultSettings_def StepsPerWindow_def WindowSize_def trunc_def
      Validate_def DM_OLD_METHOD_def DM_MEDIAN_def DM_SECOND_GREATEST_def)

text \<open>
  C6. \<open>StartNewTrack\<close> sets \<open>mOutStepCount\<close> to \<open>-(mHistoryLen - 1) - (mStepsPerWindow - 1)\<close>;
  the processing of a full window adds exactly 1 to it; the output track only grows,
  and the processing of a window whose \<open>mOutStepCount\<close> is negative appends nothing (nor
  does profiling); so in every state of a pass, a track that is not empty means that
  \<open>mOutStepCount\<close> has passed 0.
\<close>

theorem out_step_count_discipline:
  assumes "(w, statistics, outputTrack) \<in> reachable w0 statistics0"
  shows "mOutStepCount (StartNewTrack w0) = - (mHistoryLen w0 - 1) - (mStepsPerWindow w0 - 1) \<and>
         mOutStepCount (fst (processWindow (w, statistics, outputTrack))) = mOutStepCount w + 1 \<and>
         (snd (snd (processWindow (w, statistics, outputTrack))) \<noteq> outputTrack \<longrightarrow>
            0 \<le> mOutStepCount w \<and> \<not> wDoProfile w) \<and>
         (\<exists>block. snd (snd (processWindow (w, statistics, outputTrack))) = outputTrack @ block) \<and>
         (outputTrack \<noteq> [] \<longrightarrow> 0 < mOutStepCount w)"
proof -
  have start: "mOutStepCount (StartNewTrack w0) = - (mHistoryLen w0 - 1) - (mStepsPerWindow w0 - 1)"
    by (simp add: StartNewTrack_def)
  have count: "mOutStepCount (fst (processWindow (w, statistics, outputTrack))) = mOutStepCount w + 1"
    using counters_processWindow [of w statistics outputTrack] by (simp add: counters_def)
  have b: "counters (buildGains (FillFirstHistoryWindow w) statistics) = counters w" by simp
  have only: "0 \<le> mOutStepCount w \<and> \<not> wDoProfile w"
    if "snd (snd (processWindow (w, statistics, outputTrack))) \<noteq> outputTrack"
    using that b
    by (auto simp: track_processWindow track_synthesize counters_def split: if_splits)
  have grows: "\<exists>block. snd (snd (processWindow (w, statistics, outputTrack))) = outputTrack @ block"
    by (simp add: track_processWindow track_synthesize)
  from reachable_track_nonempty [OF assms]
  have "outputTrack \<noteq> [] \<longrightarrow> 0 < mOutStepCount w" by simp
  with start count only grows show ?thesis by blast
qed

theorem out_step_count_discipline_witness:
  "(StartNewTrack (new_Worker idleFFT reduceSettings 44100 (- 1) (- 1)),
    new_Statistics 1025 44100 WT_HANN_HANN, [])
     \<in> reachable (new_Worker idleFFT reduceSettings 44100 (- 1) (- 1))
         (new_Statistics 1025 44100 WT_HANN_HANN) \<and>
   mOutStepCount (StartNewTrack (new_Worker idleFFT reduceSettings 44100 (- 1) (- 1))) = - 17 \<and>
   mOutStepCount (fst (processWindow
     (StartNewTrack (new_Worker idleFFT reduceSettings 44100 (- 1) (- 1)),
      new_Statistics 1025 44100 WT_HANN_HANN, []))) = - 16 \<and>
   snd (snd (processWindow
     (StartNewTrack (new_Worker idleFFT reduceSettings 44100 (- 1) (- 1)),
      new_Statistics 1025 44100 WT_HANN_HANN, []))) = []"
  using out_step_count_discipline [OF reachable.started
      [of "new_Worker idleFFT reduceSettings 44100 (- 1) (- 1)"
          "new_Statistics 1025 44100 WT_HANN_HANN"]]
    reachable.started [of "new_Worker idleFFT reduceSettings 44100 (- 1) (- 1)"
          "new_Statistics 1025 44100 WT_HANN_HANN"]
  by (auto simp: reduceSettings_worker)

section \<open>Reduction and residue\<close>

lemma length_assign [simp]: "length (assign v start finish f) = length v"
  by (simp add: assign_def)

lemma nth_assign:
  "i < length v \<Longrightarrow>
   assign v start finish f ! i = (if start \<le> int i \<and> int i < finish then f i else v ! i)"
  by (simp add: assign_def)

lemma length_fill [simp]: "length (fill v start finish x) = length v"
  by (simp add: fill_def)

lemma nth_fill:
  "i < length v \<Longrightarrow>
   fill v start finish x ! i = (if start \<le> int i \<and> int i < finish then x else v ! i)"
  by (simp add: fill_def nth_assign)

lemma length_applyGain [simp]: "length (applyGain w record) = length (mFFTBuffer w)"
  by (simp add: applyGain_def Let_def)

lemma nth_applyGain:
  assumes "i < length (mFFTBuffer w)"
  shows "applyGain w record ! i =
     (let gain = (\<lambda>k. if wNoiseReductionChoice w = NRC_LEAVE_RESIDUE
                       then mGains record ! k - 1 else mGains record ! k)
      in if i = 1 then mImagFFTs record ! 0 * gain (nat (mSpectrumSize w - 1))
         else if i = 0 then mRealFFTs record ! 0 * gain 0
         else if 2 \<le> int i \<and> int i < 2 + 2 * (mSpectrumSize w - 2)
         then (if even i then mRealFFTs record ! (i div 2) * gain (i div 2)
               else mImagFFTs record ! (i div 2) * gain (i div 2))
         else mFFTBuffer w ! i)"
proof -
  let ?packed = "assign (mFFTBuffer w) 2 (2 + 2 * (mSpectrumSize w - 2))
    (\<lambda>i. if even i
         then mRealFFTs record ! (i div 2) *
              (if wNoiseReductionChoice w = NRC_LEAVE_RESIDUE
               then mGains record ! (i div 2) - 1 else mGains record ! (i div 2))
         else mImagFFTs record ! (i div 2) *
              (if wNoiseReductionChoice w = NRC_LEAVE_RESIDUE
               then mGains record ! (i div 2) - 1 else mGains record ! (i div 2)))"
  have len: "i < length ?packed" using assms by simp
  consider "i = 0" | "i = 1" | "2 \<le> i" by linarith
  then show ?thesis
  proof cases
    case 1
    with len have "0 < length ?packed" by simp
    with 1 show ?thesis by (simp add: applyGain_def Let_def)
  next
    case 2
    with len have "1 < length ?packed" by simp
    with 2 show ?thesis by (simp add: applyGain_def Let_def)
  next
    case 3
    with assms show ?thesis by (simp add: applyGain_def Let_def nth_assign)
  qed
qed

lemma buildGains_choice:
  assumes "c \<noteq> NRC_ISOLATE_NOISE" "wNoiseReductionChoice w \<noteq> NRC_ISOLATE_NOISE"
  shows "mQueue (buildGains (w\<lparr>wNoiseReductionChoice := c\<rparr>) statistics) =
         mQueue (buildGains w statistics)"
proof -
  have classify: "Classify (w\<lparr>wNoiseReductionChoice := c\<rparr>) statistics jj = Classify w statistics jj" for jj
    by (simp add: Classify_def secondGreatest_def)
  have center: "centerGains (w\<lparr>wNoiseReductionChoice := c\<rparr>) statistics =
                (centerGains w statistics)\<lparr>wNoiseReductionChoice := c\<rparr>"
    using assms by (simp add: centerGains_def Let_def classify)
  have attackBand: "attackBand (v\<lparr>wNoiseReductionChoice := c\<rparr>) jj is q = attackBand v jj is q"
    for v jj "is" q
    by (induction "is" arbitrary: q) (simp_all add: Let_def)
  have attack: "attack (v\<lparr>wNoiseReductionChoice := c\<rparr>) = (attack v)\<lparr>wNoiseReductionChoice := c\<rparr>" for v
    by (simp add: attack_def attackBand)
  have release: "release (v\<lparr>wNoiseReductionChoice := c\<rparr>) = (release v)\<lparr>wNoiseReductionChoice := c\<rparr>" for v
    by (simp add: release_def Let_def)
  have "fixedFields (centerGains w statistics) = fixedFields w" by simp
  then have "wNoiseReductionChoice (centerGains w statistics) = wNoiseReductionChoice w"
    by (simp add: fixedFields_def)
  with assms show ?thesis
    by (simp add: buildGains_def Let_def center attack release)
qed

lemma ApplyFreqSmoothing_choice:
  "snd (ApplyFreqSmoothing (w\<lparr>wNoiseReductionChoice := c\<rparr>) gains) =
   snd (ApplyFreqSmoothing w gains)"
  by (simp add: ApplyFreqSmoothing_def Let_def)


lemma new_Worker_buffers:
  "mFFTBuffer (new_Worker h s rate f0 f1) = replicate (nat (WindowSize s)) 0"
  "mSpectrumSize (new_Worker h s rate f0 f1) = 1 + WindowSize s div 2"
  "wNoiseReductionChoice (new_Worker h s rate f0 f1) = mNoiseReductionChoice s"
  by (simp_all add: new_Worker_def Let_def)

lemma new_Worker_choice_update:
  "new_Worker h (s\<lparr>mNoiseReductionChoice := c\<rparr>) rate f0 f1 =
     (new_Worker h s rate f0 f1)\<lparr>wNoiseReductionChoice := c\<rparr>"
  by (simp add: new_Worker_def Let_def WindowSize_def StepsPerWindow_def)

text \<open>
  The frame of a residue and of a reduction, for two workers that differ in nothing but
  the mode: the gains are built in the same way (the queue after the gains are built
  and the smoothed gains are the same), the residue path scales every bin by
  \<open>gain - 1\<close> in place of \<open>gain\<close>, and therefore, at every position of the buffer that is
  given to the inverse transform, the value of the reduction minus the value of the
  residue is the bin of the frame itself (what a gain of 1 gives). What the inverse
  transform and the overlap-add make of these buffers is outside this development.
\<close>

theorem residue_frame:
  assumes "wNoiseReductionChoice reduce = NRC_REDUCE_NOISE"
    and "2 \<le> mSpectrumSize reduce"
    and "length (mFFTBuffer reduce) = nat (2 * (mSpectrumSize reduce - 1))"
    and "length (mGains record) = nat (mSpectrumSize reduce)"
    and "i < length (mFFTBuffer reduce)"
  shows "mQueue (buildGains (reduce\<lparr>wNoiseReductionChoice := NRC_LEAVE_RESIDUE\<rparr>) statistics) =
           mQueue (buildGains reduce statistics) \<and>
         snd (ApplyFreqSmoothing (reduce\<lparr>wNoiseReductionChoice := NRC_LEAVE_RESIDUE\<rparr>) gains) =
           snd (ApplyFreqSmoothing reduce gains) \<and>
         applyGain (reduce\<lparr>wNoiseReductionChoice := NRC_LEAVE_RESIDUE\<rparr>) record ! i =
           applyGain reduce (record\<lparr>mGains := map (\<lambda>gain. gain - 1) (mGains record)\<rparr>) ! i \<and>
         applyGain reduce record ! i -
           applyGain (reduce\<lparr>wNoiseReductionChoice := NRC_LEAVE_RESIDUE\<rparr>) record ! i =
           applyGain reduce
             (record\<lparr>mGains := replicate (nat (mSpectrumSize reduce)) 1\<rparr>) ! i"
proof -
  have modes: "NRC_LEAVE_RESIDUE \<noteq> NRC_ISOLATE_NOISE" "NRC_REDUCE_NOISE \<noteq> NRC_ISOLATE_NOISE"
    "NRC_REDUCE_NOISE \<noteq> NRC_LEAVE_RESIDUE"
    by (simp_all add: NRC_LEAVE_RESIDUE_def NRC_ISOLATE_NOISE_def NRC_REDUCE_NOISE_def)
  have gains: "mQueue (buildGains (reduce\<lparr>wNoiseReductionChoice := NRC_LEAVE_RESIDUE\<rparr>) statistics) =
                 mQueue (buildGains reduce statistics)"
    using modes assms(1) by (simp add: buildGains_choice)
  have half: "i div 2 < nat (mSpectrumSize reduce)"
  proof -
    have "i < 2 * nat (mSpectrumSize reduce - 1)"
      using assms(3,5) by (simp add: nat_mult_distrib)
    then have "i < nat (mSpectrumSize reduce - 1) * 2" by simp
    then have "i div 2 < nat (mSpectrumSize reduce - 1)" by (rule less_mult_imp_div_less)
    with assms(2) show ?thesis by linarith
  qed
  have top: "nat (mSpectrumSize reduce - 1) < nat (mSpectrumSize reduce)"
    using assms(2) by linarith
  have "int i < 2 * (mSpectrumSize reduce - 1)"
    using assms(3,5) by (simp add: zless_nat_eq_int_zless)
  then have inside: "int i < 2 + 2 * (mSpectrumSize reduce - 2)"
    by simp
  have scaled: "applyGain (reduce\<lparr>wNoiseReductionChoice := NRC_LEAVE_RESIDUE\<rparr>) record ! i =
      applyGain reduce (record\<lparr>mGains := map (\<lambda>gain. gain - 1) (mGains record)\<rparr>) ! i"
    using assms(1,4,5) modes half top
    by (simp add: nth_applyGain Let_def)
  have difference: "applyGain reduce record ! i -
      applyGain (reduce\<lparr>wNoiseReductionChoice := NRC_LEAVE_RESIDUE\<rparr>) record ! i =
      applyGain reduce (record\<lparr>mGains := replicate (nat (mSpectrumSize reduce)) 1\<rparr>) ! i"
    using assms(1,5) modes half top inside
    by (simp add: nth_applyGain Let_def algebra_simps)
  from gains scaled difference show ?thesis
    by (simp add: ApplyFreqSmoothing_choice)
qed

lemma smallSettings_worker:
  "mFFTBuffer (new_Worker idleFFT smallSettings 44100 (- 1) (- 1)) = replicate 8 0"
  "mSpectrumSize (new_Worker idleFFT smallSettings 44100 (- 1) (- 1)) = 5"
  "wNoiseReductionChoice (new_Worker idleFFT smallSettings 44100 (- 1) (- 1)) = NRC_REDUCE_NOISE"
  "Validate smallSettings"
  by (simp_all add: new_Worker_buffers smallSettings_def defaultSettings_def WindowSize_def
      StepsPerWindow_def Validate_def)

theorem residue_frame_witness:
  "wNoiseReductionChoice (new_Worker idleFFT smallSettings 44100 (- 1) (- 1)) = NRC_REDUCE_NOISE \<and>
   2 \<le> mSpectrumSize (new_Worker idleFFT smallSettings 44100 (- 1) (- 1)) \<and>
   length (mFFTBuffer (new_Worker idleFFT smallSettings 44100 (- 1) (- 1))) =
     nat (2 * (mSpectrumSize (new_Worker idleFFT smallSettings 44100 (- 1) (- 1)) - 1)) \<and>
   length (mGains halfRecord) = nat (mSpectrumSize (new_Worker idleFFT smallSettings 44100 (- 1) (- 1))) \<and>
   2 < length (mFFTBuffer (new_Worker idleFFT smallSettings 44100 (- 1) (- 1))) \<and>
   applyGain (new_Worker idleFFT smallSettings 44100 (- 1) (- 1)) halfRecord ! 2 -
     applyGain ((new_Worker idleFFT smallSettings 44100 (- 1) (- 1))
                  \<lparr>wNoiseReductionChoice := NRC_LEAVE_RESIDUE\<rparr>) halfRecord ! 2 =
     applyGain (new_Worker idleFFT smallSettings 44100 (- 1) (- 1))
       (halfRecord\<lparr>mGains := replicate 5 1\<rparr>) ! 2"
proof -
  let ?w = "new_Worker idleFFT smallSettings 44100 (- 1) (- 1)"
  have h1: "wNoiseReductionChoice ?w = NRC_REDUCE_NOISE"
    and h2: "2 \<le> mSpectrumSize ?w"
    and h3: "length (mFFTBuffer ?w) = nat (2 * (mSpectrumSize ?w - 1))"
    and h4: "length (mGains halfRecord) = nat (mSpectrumSize ?w)"
    and h5: "2 < length (mFFTBuffer ?w)"
    by (simp_all add: smallSettings_worker halfRecord_def)
  from residue_frame [OF h1 h2 h3 h4 h5]
  have "applyGain ?w halfRecord ! 2 -
          applyGain (?w\<lparr>wNoiseReductionChoice := NRC_LEAVE_RESIDUE\<rparr>) halfRecord ! 2 =
        applyGain ?w (halfRecord\<lparr>mGains := replicate (nat (mSpectrumSize ?w)) 1\<rparr>) ! 2"
    by blast
  then have "applyGain ?w halfRecord ! 2 -
          applyGain (?w\<lparr>wNoiseReductionChoice := NRC_LEAVE_RESIDUE\<rparr>) halfRecord ! 2 =
        applyGain ?w (halfRecord\<lparr>mGains := replicate 5 1\<rparr>) ! 2"
    by (simp only: smallSettings_worker) simp
  with h1 h2 h3 h4 h5 show ?thesis by blast
qed

text \<open>In the frame it is the difference, not the sum, that gives the bin back: where
  the gain is one half and the bin is 1, the reduction packs 1/2 and the residue -1/2,
  which add up to 0.\<close>

theorem residue_sum_frame:
  "Validate smallSettings \<and>
   applyGain (new_Worker idleFFT smallSettings 44100 (- 1) (- 1)) halfRecord ! 2 +
     applyGain (new_Worker idleFFT (smallSettings\<lparr>mNoiseReductionChoice := NRC_LEAVE_RESIDUE\<rparr>)
                  44100 (- 1) (- 1)) halfRecord ! 2 = 0 \<and>
   applyGain (new_Worker idleFFT smallSettings 44100 (- 1) (- 1))
     (halfRecord\<lparr>mGains := replicate 5 1\<rparr>) ! 2 = 1 \<and>
   mRealFFTs halfRecord ! 1 = 1"
  by (simp add: new_Worker_choice_update nth_applyGain smallSettings_worker halfRecord_def
      NRC_LEAVE_RESIDUE_def NRC_REDUCE_NOISE_def)

section \<open>The flow of samples and the end of a track\<close>

lemma fixed_step:
  assumes "fixedFields w' = fixedFields w"
  shows "mStepSize w' = mStepSize w" "mWindowSize w' = mWindowSize w"
    "mStepsPerWindow w' = mStepsPerWindow w" "mHistoryLen w' = mHistoryLen w"
    "wDoProfile w' = wDoProfile w"
  using assms by (simp_all add: fixedFields_def)

lemma processWindow_counts:
  "mInSampleCount (fst (processWindow (w, st, out))) = mInSampleCount w"
  "mOutStepCount (fst (processWindow (w, st, out))) = mOutStepCount w + 1"
  "mInWavePos (fst (processWindow (w, st, out))) = mInWavePos w - mStepSize w"
  "mStepSize (fst (processWindow (w, st, out))) = mStepSize w"
  "mWindowSize (fst (processWindow (w, st, out))) = mWindowSize w"
  using counters_processWindow [of w st out] fixed_processWindow [of w st out]
  by (simp_all add: counters_def fixedFields_def)

lemma flowing_StartNewTrack:
  assumes "wellFormed w"
  shows "flowing (StartNewTrack w)"
proof -
  have "(- (mHistoryLen w - 1) - (mStepsPerWindow w - 1)) * mStepSize w \<le> 0"
    using assms by (intro mult_nonpos_nonneg) (simp_all add: wellFormed_def)
  then show ?thesis
    using assms by (simp add: flowing_def StartNewTrack_def wellFormed_def)
qed

lemma flowing_processWindow:
  assumes "1 \<le> mStepSize w" "mStepSize w \<le> mWindowSize w" "mInWavePos w = mWindowSize w"
    "mOutStepCount w * mStepSize w < mInSampleCount w"
  shows "flowing (fst (processWindow (w, st, out)))"
  using assms by (simp add: flowing_def processWindow_counts algebra_simps)


lemma ProcessSamples_done:
  assumes "\<not> (len \<noteq> 0 \<and> mOutStepCount w * mStepSize w < mInSampleCount w)"
  shows "ProcessSamples (w, st, out) len buffer = Some (w, st, out)"
  using assms by (subst ProcessSamples.simps) auto

lemma ProcessSamples_step:
  assumes "len \<noteq> 0" "mOutStepCount w * mStepSize w < mInSampleCount w"
    and "avail = min len (mWindowSize w - mInWavePos w)" and "0 \<le> avail"
    and "w1 = w\<lparr>mInWaveBuffer := memmove (mInWaveBuffer w) (mInWavePos w) buffer avail,
                  mInWavePos := mInWavePos w + avail\<rparr>"
  shows "ProcessSamples (w, st, out) len buffer =
         (if mInWavePos w + avail = mWindowSize w
          then ProcessSamples (processWindow (w1, st, out)) (len - avail) (drop (nat avail) buffer)
          else ProcessSamples (w1, st, out) (len - avail) (drop (nat avail) buffer))"
  apply (subst ProcessSamples.simps)
  apply (simp only: prod.case Let_def assms(3) [symmetric] assms(5) [symmetric])
  using assms(1,2,4,5) apply simp
  done

lemma ProcessSamples_total:
  assumes "flowing w" "0 \<le> len"
  shows "\<exists>w' st' out'. ProcessSamples (w, st, out) len buffer = Some (w', st', out') \<and>
           flowing w' \<and> mInSampleCount w' = mInSampleCount w \<and>
           fixedFields w' = fixedFields w"
  using assms
proof (induction "nat len" arbitrary: w st out len buffer rule: less_induct)
  case less
  show ?case
  proof (cases "len \<noteq> 0 \<and> mOutStepCount w * mStepSize w < mInSampleCount w")
    case False
    then have "ProcessSamples (w, st, out) len buffer = Some (w, st, out)"
      by (rule ProcessSamples_done)
    with less.prems show ?thesis by simp
  next
    case True
    define avail where "avail = min len (mWindowSize w - mInWavePos w)"
    define w1 where "w1 = w\<lparr>mInWaveBuffer := memmove (mInWaveBuffer w) (mInWavePos w) buffer avail,
                               mInWavePos := mInWavePos w + avail\<rparr>"
    from True less.prems have avail: "1 \<le> avail" "avail \<le> len" "avail \<le> mWindowSize w - mInWavePos w"
      by (simp_all add: avail_def flowing_def)
    then have smaller: "nat (len - avail) < nat len" and rest: "0 \<le> len - avail" by linarith+
    have fixed1: "fixedFields w1 = fixedFields w" by (simp add: w1_def fixedFields_def)
    show ?thesis
    proof (cases "mInWavePos w + avail = mWindowSize w")
      case full: True
      obtain w2 st2 out2 where p2: "processWindow (w1, st, out) = (w2, st2, out2)"
        by (cases "processWindow (w1, st, out)")
      have "flowing (fst (processWindow (w1, st, out)))"
        using less.prems(1) True full
        by (intro flowing_processWindow) (simp_all add: w1_def flowing_def)
      with p2 have flow2: "flowing w2" by simp
      from p2 have "w2 = fst (processWindow (w1, st, out))" by simp
      then have same2: "mInSampleCount w2 = mInSampleCount w" "fixedFields w2 = fixedFields w"
        using fixed1 by (simp_all add: processWindow_counts w1_def)
      have "ProcessSamples (w, st, out) len buffer =
            ProcessSamples (w2, st2, out2) (len - avail) (drop (nat avail) buffer)"
        using ProcessSamples_step [OF _ _ avail_def _ w1_def, of st out] True avail full
        by (simp add: p2)
      moreover from less.hyps [OF smaller flow2 rest, of st2 out2 "drop (nat avail) buffer"]
      obtain w' st' out' where
        "ProcessSamples (w2, st2, out2) (len - avail) (drop (nat avail) buffer) = Some (w', st', out')"
        "flowing w'" "mInSampleCount w' = mInSampleCount w2" "fixedFields w' = fixedFields w2"
        by blast
      ultimately show ?thesis using same2 by simp
    next
      case part: False
      have flow1: "flowing w1"
        using less.prems(1) avail part by (simp add: w1_def flowing_def)
      have "ProcessSamples (w, st, out) len buffer =
            ProcessSamples (w1, st, out) (len - avail) (drop (nat avail) buffer)"
        using ProcessSamples_step [OF _ _ avail_def _ w1_def, of st out] True avail part
        by simp
      moreover from less.hyps [OF smaller flow1 rest, of st out "drop (nat avail) buffer"]
      obtain w' st' out' where
        "ProcessSamples (w1, st, out) (len - avail) (drop (nat avail) buffer) = Some (w', st', out')"
        "flowing w'" "mInSampleCount w' = mInSampleCount w1" "fixedFields w' = fixedFields w1"
        by blast
      ultimately show ?thesis using fixed1 by (simp add: w1_def)
    qed
  qed
qed


lemma flush_block:
  assumes "flowing w" "mOutStepCount w * mStepSize w < mInSampleCount w"
    and "w1 = w\<lparr>mInWaveBuffer :=
                    memmove (mInWaveBuffer w) (mInWavePos w) (replicate (nat (mStepSize w)) 0)
                      (mWindowSize w - mInWavePos w),
                  mInWavePos := mWindowSize w\<rparr>"
  shows "\<exists>w'. ProcessSamples (w, st, out) (mStepSize w) (replicate (nat (mStepSize w)) 0) =
                Some (w', snd (processWindow (w1, st, out))) \<and>
              mQueue w' = mQueue (fst (processWindow (w1, st, out))) \<and>
              flowing w' \<and> fixedFields w' = fixedFields w \<and>
              mInSampleCount w' = mInSampleCount w \<and>
              mOutStepCount w' = mOutStepCount w + 1"
proof -
  define buffer :: FloatVector where "buffer = replicate (nat (mStepSize w)) 0"
  define avail where "avail = mWindowSize w - mInWavePos w"
  from assms(1) have avail: "1 \<le> avail" "avail \<le> mStepSize w"
    and min1: "avail = min (mStepSize w) (mWindowSize w - mInWavePos w)"
    and step: "mStepSize w \<noteq> 0"
    by (simp_all add: avail_def flowing_def)
  have w1: "w1 = w\<lparr>mInWaveBuffer := memmove (mInWaveBuffer w) (mInWavePos w) buffer avail,
                     mInWavePos := mInWavePos w + avail\<rparr>"
    by (simp add: assms(3) buffer_def avail_def)
  have fixed1: "fixedFields w1 = fixedFields w" by (simp add: w1 fixedFields_def)
  obtain w2 st2 out2 where p2: "processWindow (w1, st, out) = (w2, st2, out2)"
    by (cases "processWindow (w1, st, out)")
  have first: "ProcessSamples (w, st, out) (mStepSize w) buffer =
               ProcessSamples (w2, st2, out2) (mStepSize w - avail) (drop (nat avail) buffer)"
    using ProcessSamples_step [OF step assms(2) min1 _ w1, of st out] avail
    by (simp add: avail_def p2)
  have "flowing (fst (processWindow (w1, st, out)))"
    using assms(1,2) by (intro flowing_processWindow) (simp_all add: w1 flowing_def avail_def)
  with p2 have flow2: "flowing w2" by simp
  from p2 have w2: "w2 = fst (processWindow (w1, st, out))" by simp
  have counts2: "mInSampleCount w2 = mInSampleCount w" "mOutStepCount w2 = mOutStepCount w + 1"
    "mInWavePos w2 = mWindowSize w - mStepSize w" "mStepSize w2 = mStepSize w"
    "mWindowSize w2 = mWindowSize w" "fixedFields w2 = fixedFields w"
    using fixed1 by (simp_all add: w2 processWindow_counts w1 avail_def)
  define len2 where "len2 = mStepSize w - avail"
  have len2: "0 \<le> len2" "len2 < mStepSize w" using avail by (simp_all add: len2_def)
  show ?thesis
  proof (cases "len2 \<noteq> 0 \<and> mOutStepCount w2 * mStepSize w2 < mInSampleCount w2")
    case False
    then have "ProcessSamples (w2, st2, out2) len2 (drop (nat avail) buffer) = Some (w2, st2, out2)"
      by (rule ProcessSamples_done)
    with first flow2 counts2 show ?thesis
      by (simp add: buffer_def len2_def p2)
  next
    case True
    define w3 where
      "w3 = w2\<lparr>mInWaveBuffer :=
                  memmove (mInWaveBuffer w2) (mInWavePos w2) (drop (nat avail) buffer) len2,
                mInWavePos := mInWavePos w2 + len2\<rparr>"
    have min2: "len2 = min len2 (mWindowSize w2 - mInWavePos w2)"
      using len2 by (simp add: counts2)
    have notfull: "mInWavePos w2 + len2 \<noteq> mWindowSize w2"
      using len2 by (simp add: counts2)
    have "ProcessSamples (w2, st2, out2) len2 (drop (nat avail) buffer) =
          ProcessSamples (w3, st2, out2) (len2 - len2) (drop (nat len2) (drop (nat avail) buffer))"
      using ProcessSamples_step [OF _ _ min2 len2(1) w3_def, of st2 out2] True notfull
      by simp
    also have "\<dots> = Some (w3, st2, out2)"
      by (rule ProcessSamples_done) simp
    finally have second:
      "ProcessSamples (w2, st2, out2) len2 (drop (nat avail) buffer) = Some (w3, st2, out2)" .
    have "flowing w3"
      using flow2 len2 by (simp add: w3_def flowing_def counts2)
    moreover have "fixedFields w3 = fixedFields w"
      using counts2 by (simp add: w3_def fixedFields_def)
    ultimately show ?thesis
      using first second counts2
      by (simp add: buffer_def len2_def p2 w3_def)
  qed
qed


lemma FinishTrack_done:
  assumes "\<not> mOutStepCount w * mStepSize w < mInSampleCount w"
  shows "FinishTrack (w, st, out) = Some (w, st, out)"
  using assms by (subst FinishTrack.simps) simp

lemma FinishTrack_step:
  assumes "mOutStepCount w * mStepSize w < mInSampleCount w"
    and "ProcessSamples (w, st, out) (mStepSize w) (replicate (nat (mStepSize w)) 0) = Some pass"
  shows "FinishTrack (w, st, out) = FinishTrack pass"
  using assms by (subst FinishTrack.simps) simp

lemma FinishTrack_total:
  assumes "flowing w"
  shows "\<exists>w' st' out'. FinishTrack (w, st, out) = Some (w', st', out') \<and>
           flowing w' \<and> fixedFields w' = fixedFields w \<and>
           mInSampleCount w' = mInSampleCount w \<and>
           \<not> mOutStepCount w' * mStepSize w' < mInSampleCount w'"
  using assms
proof (induction "nat (mInSampleCount w - mOutStepCount w * mStepSize w)"
    arbitrary: w st out rule: less_induct)
  case less
  show ?case
  proof (cases "mOutStepCount w * mStepSize w < mInSampleCount w")
    case False
    then have "FinishTrack (w, st, out) = Some (w, st, out)" by (rule FinishTrack_done)
    with less.prems False show ?thesis by simp
  next
    case True
    from flush_block [OF less.prems True refl, of st out]
    obtain w1 pass1 where
      run: "ProcessSamples (w, st, out) (mStepSize w) (replicate (nat (mStepSize w)) 0) =
              Some (w1, pass1)"
      and flow1: "flowing w1" and fixed1: "fixedFields w1 = fixedFields w"
      and counts1: "mInSampleCount w1 = mInSampleCount w" "mOutStepCount w1 = mOutStepCount w + 1"
      by blast
    obtain st1 out1 where pass1: "pass1 = (st1, out1)" by (cases pass1)
    from fixed1 have step1: "mStepSize w1 = mStepSize w" by (simp add: fixedFields_def)
    from less.prems have "1 \<le> mStepSize w" by (simp add: flowing_def)
    with True have smaller:
      "nat (mInSampleCount w1 - mOutStepCount w1 * mStepSize w1) <
       nat (mInSampleCount w - mOutStepCount w * mStepSize w)"
      by (simp add: counts1 step1 algebra_simps)
    from less.hyps [OF smaller flow1, of st1 out1]
    obtain w' st' out' where
      "FinishTrack (w1, st1, out1) = Some (w', st', out')" "flowing w'"
      "fixedFields w' = fixedFields w1" "mInSampleCount w' = mInSampleCount w1"
      "\<not> mOutStepCount w' * mStepSize w' < mInSampleCount w'"
      by blast
    moreover have "FinishTrack (w, st, out) = FinishTrack (w1, st1, out1)"
      using FinishTrack_step [OF True run] pass1 by simp
    ultimately show ?thesis using fixed1 counts1 by simp
  qed
qed

lemma feed_total:
  assumes "flowing w"
  shows "\<exists>w' st' out' ok. feed (w, st, out) blocks = Some ((w', st', out'), ok) \<and>
           flowing w' \<and> fixedFields w' = fixedFields w"
  using assms
proof (induction blocks arbitrary: w st out)
  case Nil
  then show ?case by auto
next
  case (Cons block blocks)
  obtain buffer cancelled where block: "block = (buffer, cancelled)" by (cases block)
  define w0 where "w0 = w\<lparr>mInSampleCount := mInSampleCount w + int (length buffer)\<rparr>"
  have "flowing w0" using Cons.prems by (simp add: w0_def flowing_def)
  from ProcessSamples_total [OF this, of "int (length buffer)" st out buffer]
  obtain w1 st1 out1 where
    run: "ProcessSamples (w0, st, out) (int (length buffer)) buffer = Some (w1, st1, out1)"
    and flow1: "flowing w1" and fixed1: "fixedFields w1 = fixedFields w0"
    by auto
  have fixed0: "fixedFields w0 = fixedFields w" by (simp add: w0_def fixedFields_def)
  show ?case
  proof (cases cancelled)
    case True
    with run flow1 fixed1 fixed0 show ?thesis
      by (auto simp: block w0_def [symmetric])
  next
    case False
    from Cons.IH [OF flow1, of st1 out1]
    obtain w' st' out' ok where
      "feed (w1, st1, out1) blocks = Some ((w', st', out'), ok)" "flowing w'"
      "fixedFields w' = fixedFields w1"
      by blast
    with run False fixed1 fixed0 show ?thesis
      by (auto simp: block w0_def [symmetric])
  qed
qed

lemma feed_flowing:
  assumes "flowing w" "feed (w, st, out) blocks = Some ((w', st', out'), ok)"
  shows "flowing w'"
  using feed_total [OF assms(1), of st out blocks] assms(2) by auto

lemma new_Worker_sizes:
  "mWindowSize (new_Worker h s rate f0 f1) = WindowSize s"
  "mStepSize (new_Worker h s rate f0 f1) = WindowSize s div StepsPerWindow s"
  "mStepsPerWindow (new_Worker h s rate f0 f1) = StepsPerWindow s"
  "mSpectrumSize (new_Worker h s rate f0 f1) = 1 + WindowSize s div 2"
  "mFreqSmoothingBins (new_Worker h s rate f0 f1) =
     trunc (mFreqSmoothingHz s * real_of_int (WindowSize s) / rate)"
  "mCenter (new_Worker h s rate f0 f1) = mNWindowsToExamine (new_Worker h s rate f0 f1) div 2"
  "mNoiseAttenFactor (new_Worker h s rate f0 f1) = 10 powr (- mNoiseGain s / 20)"
  "mQueue (new_Worker h s rate f0 f1) =
     replicate (nat (mHistoryLen (new_Worker h s rate f0 f1)))
       (new_Record (1 + WindowSize s div 2))"
  "wDoProfile (new_Worker h s rate f0 f1) = mDoProfile s"
  by (simp_all add: new_Worker_def Let_def)

lemma new_Worker_scratch:
  "mFreqSmoothingScratch (new_Worker h s rate f0 f1) = replicate (nat (1 + WindowSize s div 2)) 0"
  by (simp add: new_Worker_def Let_def)

lemma WindowSize_ge: "8 \<le> WindowSize s"
proof -
  have "(1::int) \<le> 2 ^ mWindowSizeChoice s" by simp
  then show ?thesis by (simp add: WindowSize_def power_add)
qed

lemma StepsPerWindow_ge: "2 \<le> StepsPerWindow s"
proof -
  have "(1::int) \<le> 2 ^ mStepsPerWindowChoice s" by simp
  then show ?thesis by (simp add: StepsPerWindow_def)
qed

lemma examine_ge: "2 \<le> mNWindowsToExamine (new_Worker h s rate f0 f1)"
  using StepsPerWindow_ge [of s] by (simp add: new_Worker_examine)

lemma history_ge:
  "mNWindowsToExamine (new_Worker h s rate f0 f1) \<le> mHistoryLen (new_Worker h s rate f0 f1)"
  by (simp add: new_Worker_history)

lemma trunc_nonneg: "0 \<le> x \<Longrightarrow> 0 \<le> trunc x"
  by (simp add: trunc_def)

lemma wellFormed_new_Worker:
  assumes "Validate s" "0 \<le> mNoiseGain s" "0 \<le> mFreqSmoothingHz s" "0 < rate"
  shows "wellFormed (new_Worker h s rate f0 f1)"
proof -
  let ?w = "new_Worker h s rate f0 f1"
  from assms(1) have le: "StepsPerWindow s \<le> WindowSize s"
    by (simp add: Validate_def split: if_splits)
  have pos: "0 < StepsPerWindow s" using StepsPerWindow_ge [of s] by simp
  have step1: "1 \<le> mStepSize ?w"
    using pos_imp_zdiv_pos_iff [OF pos, of "WindowSize s"] le by (simp add: new_Worker_sizes)
  have "WindowSize s div StepsPerWindow s \<le> WindowSize s div 1"
    using WindowSize_ge [of s] pos by (intro zdiv_mono2) simp_all
  then have step2: "mStepSize ?w \<le> mWindowSize ?w" by (simp add: new_Worker_sizes)
  have steps: "1 \<le> mStepsPerWindow ?w"
    using StepsPerWindow_ge [of s] by (simp add: new_Worker_sizes)
  have spectrum: "2 \<le> mSpectrumSize ?w"
    using WindowSize_ge [of s] by (simp add: new_Worker_sizes)
  have "0 \<le> mFreqSmoothingHz s * real_of_int (WindowSize s) / rate"
    using assms(3,4) WindowSize_ge [of s] by simp
  then have bins: "0 \<le> mFreqSmoothingBins ?w"
    by (simp add: new_Worker_sizes trunc_nonneg)
  have center: "1 \<le> mCenter ?w" "mCenter ?w < mHistoryLen ?w"
    using examine_ge [of h s rate f0 f1] history_ge [of h s rate f0 f1]
    by (simp_all add: new_Worker_sizes)
  have "(10::real) powr (- mNoiseGain s / 20) \<le> 10 powr 0"
    using assms(2) by (intro powr_mono) simp_all
  then have atten: "0 < mNoiseAttenFactor ?w" "mNoiseAttenFactor ?w \<le> 1"
    by (simp_all add: new_Worker_sizes)
  have scratch: "length (mFreqSmoothingScratch ?w) = nat (mSpectrumSize ?w)"
    by (simp add: new_Worker_sizes new_Worker_scratch)
  have queue: "length (mQueue ?w) = nat (mHistoryLen ?w)"
    "list_all (\<lambda>record. length (mGains record) = nat (mSpectrumSize ?w)) (mQueue ?w)"
    by (simp_all add: new_Worker_sizes list_all_iff new_Record_def)
  from step1 step2 steps spectrum bins center atten scratch queue show ?thesis
    by (simp add: wellFormed_def)
qed

lemma reduceSettings_ranges:
  "Validate reduceSettings" "0 \<le> mNoiseGain reduceSettings"
  "0 \<le> mFreqSmoothingHz reduceSettings"
  by (simp_all add: reduceSettings_def defaultSettings_def Validate_def StepsPerWindow_def
      WindowSize_def DM_SECOND_GREATEST_def DM_MEDIAN_def)

text \<open>
  C10. After \<open>StartNewTrack\<close> on a well-formed worker and the feeding of any blocks of
  samples, \<open>FinishTrack\<close> returns: its loop ends. It leaves \<open>mInSampleCount\<close> as it was,
  and on exit \<open>mOutStepCount * mStepSize\<close> has reached \<open>mInSampleCount\<close> and exceeds it by
  less than \<open>mStepSize\<close>. Whenever the condition of the loop holds, the feeding of one
  block of \<open>mStepSize\<close> zeros completes exactly one window (the result is that of
  \<open>processWindow\<close> on the window filled up with zeros) and adds 1 to \<open>mOutStepCount\<close>.
\<close>

theorem FinishTrack_terminates:
  assumes "wellFormed w0"
    and "feed (StartNewTrack w0, statistics0, []) blocks = Some ((w, statistics, outputTrack), ok)"
  shows "(\<exists>w' statistics' outputTrack'.
            FinishTrack (w, statistics, outputTrack) = Some (w', statistics', outputTrack') \<and>
            mInSampleCount w' = mInSampleCount w \<and> mStepSize w' = mStepSize w \<and>
            mInSampleCount w' \<le> mOutStepCount w' * mStepSize w' \<and>
            mOutStepCount w' * mStepSize w' - mInSampleCount w' < mStepSize w') \<and>
         (mOutStepCount w * mStepSize w < mInSampleCount w \<longrightarrow>
            (\<exists>w'. ProcessSamples (w, statistics, outputTrack) (mStepSize w)
                     (replicate (nat (mStepSize w)) 0) =
                   Some (w', snd (processWindow
                      (w\<lparr>mInWaveBuffer :=
                           memmove (mInWaveBuffer w) (mInWavePos w)
                             (replicate (nat (mStepSize w)) 0) (mWindowSize w - mInWavePos w),
                         mInWavePos := mWindowSize w\<rparr>, statistics, outputTrack))) \<and>
                   mOutStepCount w' = mOutStepCount w + 1 \<and>
                   mInSampleCount w' = mInSampleCount w))"
proof -
  from assms(1) have "flowing (StartNewTrack w0)" by (rule flowing_StartNewTrack)
  then have flow: "flowing w" using assms(2) by (rule feed_flowing)
  from FinishTrack_total [OF flow, of statistics outputTrack]
  obtain w' st' out' where
    run: "FinishTrack (w, statistics, outputTrack) = Some (w', st', out')"
    and flow': "flowing w'" and fixed: "fixedFields w' = fixedFields w"
    and same: "mInSampleCount w' = mInSampleCount w"
    and caught: "\<not> mOutStepCount w' * mStepSize w' < mInSampleCount w'"
    by blast
  from fixed have step: "mStepSize w' = mStepSize w" by (simp add: fixedFields_def)
  from flow' have "mOutStepCount w' * mStepSize w' < mInSampleCount w' + mStepSize w'"
    by (simp add: flowing_def)
  with run same step caught have first:
    "\<exists>w' statistics' outputTrack'.
       FinishTrack (w, statistics, outputTrack) = Some (w', statistics', outputTrack') \<and>
       mInSampleCount w' = mInSampleCount w \<and> mStepSize w' = mStepSize w \<and>
       mInSampleCount w' \<le> mOutStepCount w' * mStepSize w' \<and>
       mOutStepCount w' * mStepSize w' - mInSampleCount w' < mStepSize w'"
    by auto
  have second: "\<exists>w'. ProcessSamples (w, statistics, outputTrack) (mStepSize w)
                     (replicate (nat (mStepSize w)) 0) =
                   Some (w', snd (processWindow
                      (w\<lparr>mInWaveBuffer :=
                           memmove (mInWaveBuffer w) (mInWavePos w)
                             (replicate (nat (mStepSize w)) 0) (mWindowSize w - mInWavePos w),
                         mInWavePos := mWindowSize w\<rparr>, statistics, outputTrack))) \<and>
                   mOutStepCount w' = mOutStepCount w + 1 \<and>
                   mInSampleCount w' = mInSampleCount w"
    if running: "mOutStepCount w * mStepSize w < mInSampleCount w"
    using flush_block [OF flow running refl, of statistics outputTrack] by blast
  from first second show ?thesis by blast
qed

theorem FinishTrack_terminates_witness:
  "wellFormed (new_Worker idleFFT reduceSettings 44100 (- 1) (- 1)) \<and>
   (\<exists>w statistics outputTrack ok.
      feed (StartNewTrack (new_Worker idleFFT reduceSettings 44100 (- 1) (- 1)),
            new_Statistics 1025 44100 WT_HANN_HANN, [])
        [(replicate 1000 (1 / 2), False)] = Some ((w, statistics, outputTrack), ok) \<and>
      (\<exists>w' statistics' outputTrack'.
         FinishTrack (w, statistics, outputTrack) = Some (w', statistics', outputTrack') \<and>
         mInSampleCount w' \<le> mOutStepCount w' * mStepSize w' \<and>
         mOutStepCount w' * mStepSize w' - mInSampleCount w' < mStepSize w'))"
proof -
  let ?w0 = "new_Worker idleFFT reduceSettings 44100 (- 1) (- 1)"
  have wf: "wellFormed ?w0"
    using reduceSettings_ranges by (intro wellFormed_new_Worker) simp_all
  then have "flowing (StartNewTrack ?w0)" by (rule flowing_StartNewTrack)
  from feed_total [OF this, of "new_Statistics 1025 44100 WT_HANN_HANN" "[]"
      "[(replicate 1000 (1 / 2), False)]"]
  obtain w st out ok where
    fed: "feed (StartNewTrack ?w0, new_Statistics 1025 44100 WT_HANN_HANN, [])
            [(replicate 1000 (1 / 2), False)] = Some ((w, st, out), ok)"
    by blast
  from FinishTrack_terminates [OF wf fed]
  have "\<exists>w' statistics' outputTrack'.
         FinishTrack (w, st, out) = Some (w', statistics', outputTrack') \<and>
         mInSampleCount w' \<le> mOutStepCount w' * mStepSize w' \<and>
         mOutStepCount w' * mStepSize w' - mInSampleCount w' < mStepSize w'"
    by blast
  with wf fed show ?thesis by blast
qed

section \<open>The means of a profiling pass\<close>

lemma gatherAll_snoc: "gatherAll st (ws @ [w]) = GatherStatistics w (gatherAll st ws)"
  by (simp add: gatherAll_def)

lemma gatherAll_fields:
  assumes "\<forall>w \<in> set ws. mSpectrumSize w = n"
  shows "mTrackWindows (gatherAll st ws) = mTrackWindows st + int (length ws) \<and>
         mTotalWindows (gatherAll st ws) = mTotalWindows st \<and>
         mMeans (gatherAll st ws) = mMeans st \<and>
         length (mSums (gatherAll st ws)) = length (mSums st) \<and>
         (\<forall>k. k < length (mSums st) \<longrightarrow> int k < n \<longrightarrow>
            mSums (gatherAll st ws) ! k = mSums st ! k + sum_list (map (windowPower k) ws))"
  using assms
proof (induction ws rule: rev_induct)
  case Nil
  then show ?case by (simp add: gatherAll_def)
next
  case (snoc w ws)
  then show ?case
    by (simp add: gatherAll_snoc GatherStatistics_def Let_def nth_assign windowPower_def)
qed


lemma FinishTrackStatistics_fields:
  "mTrackWindows (FinishTrackStatistics st) = 0 \<and>
   mTotalWindows (FinishTrackStatistics st) = mTrackWindows st + mTotalWindows st \<and>
   length (mMeans (FinishTrackStatistics st)) = length (mMeans st) \<and>
   length (mSums (FinishTrackStatistics st)) = length (mSums st)"
  by (simp add: FinishTrackStatistics_def Let_def)

lemma FinishTrackStatistics_nth:
  assumes "k < length (mMeans st)" "k < length (mSums st)"
  shows "mMeans (FinishTrackStatistics st) ! k =
           (if mTrackWindows st \<noteq> 0
            then (mMeans st ! k * real_of_int (mTotalWindows st) + mSums st ! k)
                   / real_of_int (mTrackWindows st + mTotalWindows st)
            else mMeans st ! k)"
    and "mSums (FinishTrackStatistics st) ! k = (if mTrackWindows st \<noteq> 0 then 0 else mSums st ! k)"
  using assms by (simp_all add: FinishTrackStatistics_def Let_def nth_assign nth_fill)

lemma profilePass_snoc:
  "profilePass st (tracks @ [ws]) = FinishTrackStatistics (gatherAll (profilePass st tracks) ws)"
  by (simp add: profilePass_def profileTrack_def)

lemma mean_fold:
  fixes old new :: real and t w :: nat
  assumes "t = 0 \<longrightarrow> old = 0" "w \<noteq> 0"
  shows "(old / real t * real_of_int (int t) + new) / real_of_int (int w + int t) =
         (old + new) / real (t + w)"
proof -
  have "old / real t * real_of_int (int t) = old"
    using assms(1) by (cases "t = 0") simp_all
  moreover have "real_of_int (int w + int t) = real (t + w)" by simp
  ultimately show ?thesis by simp
qed

lemma profilePass_invariant:
  assumes "\<forall>ws \<in> set tracks. \<forall>w \<in> set ws. mSpectrumSize w = n"
  shows "length (mMeans (profilePass (new_Statistics n rate wt) tracks)) = nat n \<and>
         length (mSums (profilePass (new_Statistics n rate wt) tracks)) = nat n \<and>
         mTrackWindows (profilePass (new_Statistics n rate wt) tracks) = 0 \<and>
         mTotalWindows (profilePass (new_Statistics n rate wt) tracks) = int (length (concat tracks)) \<and>
         (\<forall>k < nat n.
            mSums (profilePass (new_Statistics n rate wt) tracks) ! k = 0 \<and>
            mMeans (profilePass (new_Statistics n rate wt) tracks) ! k =
              sum_list (map (windowPower k) (concat tracks)) / real (length (concat tracks)))"
  using assms
proof (induction tracks rule: rev_induct)
  case Nil
  then show ?case by (simp add: profilePass_def new_Statistics_def)
next
  case (snoc ws tracks)
  let ?p = "profilePass (new_Statistics n rate wt) tracks"
  let ?g = "gatherAll ?p ws"
  from snoc have IH:
    "length (mMeans ?p) = nat n" "length (mSums ?p) = nat n" "mTrackWindows ?p = 0"
    "mTotalWindows ?p = int (length (concat tracks))"
    "\<And>k. k < nat n \<Longrightarrow> mSums ?p ! k = 0"
    "\<And>k. k < nat n \<Longrightarrow> mMeans ?p ! k =
        sum_list (map (windowPower k) (concat tracks)) / real (length (concat tracks))"
    by simp_all
  from snoc.prems have sizes: "\<forall>w \<in> set ws. mSpectrumSize w = n" by simp
  note g = gatherAll_fields [OF sizes, of ?p]
  have g1: "mTrackWindows ?g = int (length ws)" "mTotalWindows ?g = int (length (concat tracks))"
    "mMeans ?g = mMeans ?p" "length (mSums ?g) = nat n"
    using g IH by simp_all
  have g2: "mSums ?g ! k = sum_list (map (windowPower k) ws)" if "k < nat n" for k
    using g IH that by simp
  have f: "profilePass (new_Statistics n rate wt) (tracks @ [ws]) = FinishTrackStatistics ?g"
    by (rule profilePass_snoc)
  have nth: "mSums (FinishTrackStatistics ?g) ! k = 0 \<and>
             mMeans (FinishTrackStatistics ?g) ! k =
               sum_list (map (windowPower k) (concat (tracks @ [ws])))
                 / real (length (concat (tracks @ [ws])))" if k: "k < nat n" for k
  proof (cases "ws = []")
    case True
    with k show ?thesis
      using FinishTrackStatistics_nth [of k ?g] g1 g2 [OF k] IH by simp
  next
    case False
    have empty: "length (concat tracks) = 0 \<longrightarrow> sum_list (map (windowPower k) (concat tracks)) = 0"
    proof
      assume "length (concat tracks) = 0"
      then have "concat tracks = []" by (simp only: length_0_conv)
      then show "sum_list (map (windowPower k) (concat tracks)) = 0" by (simp only: list.map sum_list.Nil)
    qed
    from False have w: "length ws \<noteq> 0" by simp
    from k False show ?thesis
      using FinishTrackStatistics_nth [of k ?g] g1 g2 [OF k] IH mean_fold [OF empty w]
      by simp
  qed
  show ?case
    unfolding f using FinishTrackStatistics_fields [of ?g] g1 IH nth by simp
qed

lemma profileWindow_fields:
  "mSpectrumSize (profileWindow x) = 5"
  "windowPower 2 (profileWindow x) = x"
  by (simp_all add: profileWindow_def windowPower_def new_Worker_sizes smallSettings_def
      defaultSettings_def WindowSize_def)

text \<open>
  C5. In a profiling pass started on fresh statistics, at the end of every track
  \<open>FinishTrackStatistics\<close> sets \<open>mMeans[k]\<close> to
  \<open>(mMeans[k] * mTotalWindows + mSums[k]) / (mTrackWindows + mTotalWindows)\<close> (when that
  denominator is not zero), adds \<open>mTrackWindows\<close> to \<open>mTotalWindows\<close>, and resets \<open>mSums[k]\<close>
  and \<open>mTrackWindows\<close> to zero; after the pass \<open>mMeans[k]\<close> is the arithmetic mean of the
  power of band \<open>k\<close> over all windows of all tracks, the same as for the one track made of
  all the windows.
\<close>

theorem profile_means:
  assumes "\<forall>ws \<in> set (tracks @ [track]). \<forall>w \<in> set ws. mSpectrumSize w = n" and "k < nat n"
  shows "(mTrackWindows (gatherAll (profilePass (new_Statistics n rate wt) tracks) track) +
          mTotalWindows (gatherAll (profilePass (new_Statistics n rate wt) tracks) track) \<noteq> 0 \<longrightarrow>
          mMeans (FinishTrackStatistics
                    (gatherAll (profilePass (new_Statistics n rate wt) tracks) track)) ! k =
            (mMeans (gatherAll (profilePass (new_Statistics n rate wt) tracks) track) ! k *
               real_of_int (mTotalWindows (gatherAll (profilePass (new_Statistics n rate wt) tracks) track)) +
             mSums (gatherAll (profilePass (new_Statistics n rate wt) tracks) track) ! k) /
            real_of_int
              (mTrackWindows (gatherAll (profilePass (new_Statistics n rate wt) tracks) track) +
               mTotalWindows (gatherAll (profilePass (new_Statistics n rate wt) tracks) track))) \<and>
         mTotalWindows (FinishTrackStatistics
                    (gatherAll (profilePass (new_Statistics n rate wt) tracks) track)) =
           mTotalWindows (gatherAll (profilePass (new_Statistics n rate wt) tracks) track) +
           mTrackWindows (gatherAll (profilePass (new_Statistics n rate wt) tracks) track) \<and>
         mSums (FinishTrackStatistics
                    (gatherAll (profilePass (new_Statistics n rate wt) tracks) track)) ! k = 0 \<and>
         mTrackWindows (FinishTrackStatistics
                    (gatherAll (profilePass (new_Statistics n rate wt) tracks) track)) = 0 \<and>
         mMeans (profilePass (new_Statistics n rate wt) (tracks @ [track])) ! k =
           sum_list (map (windowPower k) (concat (tracks @ [track])))
             / real (length (concat (tracks @ [track]))) \<and>
         mMeans (profilePass (new_Statistics n rate wt) (tracks @ [track])) ! k =
           mMeans (profilePass (new_Statistics n rate wt) [concat (tracks @ [track])]) ! k"
proof -
  let ?p = "profilePass (new_Statistics n rate wt) tracks"
  let ?g = "gatherAll ?p track"
  from assms(1) have sizes: "\<forall>ws \<in> set tracks. \<forall>w \<in> set ws. mSpectrumSize w = n"
    and size: "\<forall>w \<in> set track. mSpectrumSize w = n"
    by simp_all
  note inv = profilePass_invariant [OF sizes, of rate wt]
  from inv have p: "length (mMeans ?p) = nat n" "length (mSums ?p) = nat n" "mTrackWindows ?p = 0"
    "mTotalWindows ?p = int (length (concat tracks))" "mSums ?p ! k = 0"
    using assms(2) by simp_all
  note g = gatherAll_fields [OF size, of ?p]
  have g1: "mTrackWindows ?g = int (length track)" "mTotalWindows ?g = int (length (concat tracks))"
    "mMeans ?g = mMeans ?p" "length (mSums ?g) = nat n"
    using g p by simp_all
  have g2: "mSums ?g ! k = sum_list (map (windowPower k) track)"
    using g p assms(2) by simp
  have k: "k < length (mMeans ?g)" "k < length (mSums ?g)"
    using assms(2) g1 p by simp_all
  note finish = FinishTrackStatistics_nth [OF k]
  have formula: "mMeans (FinishTrackStatistics ?g) ! k =
      (mMeans ?g ! k * real_of_int (mTotalWindows ?g) + mSums ?g ! k) /
        real_of_int (mTrackWindows ?g + mTotalWindows ?g)"
    if "mTrackWindows ?g + mTotalWindows ?g \<noteq> 0"
  proof (cases "mTrackWindows ?g = 0")
    case False
    then show ?thesis by (simp add: finish)
  next
    case True
    have "mSums ?g ! k = 0"
    proof -
      from True g1 have "track = []" by simp
      then have "sum_list (map (windowPower k) track) = 0" by simp
      with g2 show ?thesis by (simp only:)
    qed
    with True that show ?thesis by (simp add: finish)
  qed
  have sums: "mSums (FinishTrackStatistics ?g) ! k = 0"
  proof (cases "mTrackWindows ?g = 0")
    case False
    then show ?thesis by (simp add: finish)
  next
    case True
    have "mSums ?g ! k = 0"
    proof -
      from True g1 have "track = []" by simp
      then have "sum_list (map (windowPower k) track) = 0" by simp
      with g2 show ?thesis by (simp only:)
    qed
    with True show ?thesis by (simp add: finish)
  qed
  note all = profilePass_invariant [OF assms(1), of rate wt]
  have mean: "mMeans (profilePass (new_Statistics n rate wt) (tracks @ [track])) ! k =
      sum_list (map (windowPower k) (concat (tracks @ [track])))
        / real (length (concat (tracks @ [track])))"
    using all assms(2) by blast
  have "\<forall>ws \<in> set [concat (tracks @ [track])]. \<forall>w \<in> set ws. mSpectrumSize w = n"
    using assms(1) by auto
  from profilePass_invariant [OF this, of rate wt] assms(2)
  have one: "mMeans (profilePass (new_Statistics n rate wt) [concat (tracks @ [track])]) ! k =
      sum_list (map (windowPower k) (concat (tracks @ [track])))
        / real (length (concat (tracks @ [track])))"
    by simp
  from formula sums mean one FinishTrackStatistics_fields [of ?g] show ?thesis
    by (simp add: add.commute)
qed

theorem profile_means_witness:
  "mMeans (profilePass (new_Statistics 5 44100 WT_RECTANGULAR_HANN)
            ([[profileWindow 2, profileWindow 6]] @ [[profileWindow 4]])) ! 2 = 4 \<and>
   mMeans (profilePass (new_Statistics 5 44100 WT_RECTANGULAR_HANN)
            [[profileWindow 2, profileWindow 6, profileWindow 4]]) ! 2 = 4"
proof -
  have sizes: "\<forall>ws \<in> set ([[profileWindow 2, profileWindow 6]] @ [[profileWindow 4]]).
      \<forall>w \<in> set ws. mSpectrumSize w = 5"
    by (simp add: profileWindow_fields)
  have band: "(2::nat) < nat 5" by simp
  note all = profile_means [OF sizes band, of 44100 WT_RECTANGULAR_HANN]
  from all have mean:
    "mMeans (profilePass (new_Statistics 5 44100 WT_RECTANGULAR_HANN)
              ([[profileWindow 2, profileWindow 6]] @ [[profileWindow 4]])) ! 2 =
       sum_list (map (windowPower 2)
          (concat ([[profileWindow 2, profileWindow 6]] @ [[profileWindow 4]])))
        / real (length (concat ([[profileWindow 2, profileWindow 6]] @ [[profileWindow 4]])))"
    by blast
  from all have one:
    "mMeans (profilePass (new_Statistics 5 44100 WT_RECTANGULAR_HANN)
              ([[profileWindow 2, profileWindow 6]] @ [[profileWindow 4]])) ! 2 =
     mMeans (profilePass (new_Statistics 5 44100 WT_RECTANGULAR_HANN)
              [concat ([[profileWindow 2, profileWindow 6]] @ [[profileWindow 4]])]) ! 2"
    by blast
  have quotient: "sum_list (map (windowPower 2)
          (concat ([[profileWindow 2, profileWindow 6]] @ [[profileWindow 4]])))
        / real (length (concat ([[profileWindow 2, profileWindow 6]] @ [[profileWindow 4]]))) = 4"
    by (simp add: profileWindow_fields)
  have flat: "concat ([[profileWindow 2, profileWindow 6]] @ [[profileWindow 4]]) =
      [profileWindow 2, profileWindow 6, profileWindow 4]"
    by simp
  from mean quotient have first:
    "mMeans (profilePass (new_Statistics 5 44100 WT_RECTANGULAR_HANN)
              ([[profileWindow 2, profileWindow 6]] @ [[profileWindow 4]])) ! 2 = 4"
    by (simp only:)
  from one first flat have
    "mMeans (profilePass (new_Statistics 5 44100 WT_RECTANGULAR_HANN)
              [[profileWindow 2, profileWindow 6, profileWindow 4]]) ! 2 = 4"
    by (simp only:)
  with first show ?thesis by (rule conjI)
qed

section \<open>A profiling pass gathers and folds\<close>

lemma statistics_processWindow:
  "fst (snd (processWindow (w, st, out))) =
     (if wDoProfile w then GatherStatistics (FillFirstHistoryWindow w) st else st)"
proof -
  have "fixedFields (FillFirstHistoryWindow w) = fixedFields w" by simp
  then show ?thesis
    by (simp add: processWindow_def Let_def split_beta fixedFields_def)
qed

lemma reachable_fixed:
  assumes "pass \<in> reachable w0 st0"
  shows "fixedFields (fst pass) = fixedFields w0"
  using assms
proof (induction rule: reachable.induct)
  case (windowed w statistics outputTrack)
  then show ?case by simp
qed (simp_all add: fixedFields_def StartNewTrack_def)

lemma reachable_profile:
  assumes "pass \<in> reachable w0 st0" "wDoProfile w0"
  shows "\<exists>ws. fst (snd pass) = gatherAll st0 ws \<and> (\<forall>v \<in> set ws. fixedFields v = fixedFields w0)"
  using assms(1)
proof (induction rule: reachable.induct)
  case started
  have "st0 = gatherAll st0 []" by (simp add: gatherAll_def)
  then show ?case by force
next
  case (counted w statistics outputTrack blockSize)
  then show ?case by simp
next
  case (copied w statistics outputTrack avail buffer)
  then show ?case by simp
next
  case (windowed w statistics outputTrack)
  then obtain ws where ws: "statistics = gatherAll st0 ws"
    "\<forall>v \<in> set ws. fixedFields v = fixedFields w0"
    by auto
  from reachable_fixed [OF windowed(1)] have fixed: "fixedFields w = fixedFields w0" by simp
  with assms(2) have profile: "wDoProfile w" by (simp add: fixedFields_def)
  have "fst (snd (processWindow (w, statistics, outputTrack))) =
          gatherAll st0 (ws @ [FillFirstHistoryWindow w])"
    using profile ws(1) by (simp add: statistics_processWindow gatherAll_def)
  moreover have "\<forall>v \<in> set (ws @ [FillFirstHistoryWindow w]). fixedFields v = fixedFields w0"
    using ws(2) fixed by simp
  ultimately show ?case by blast
qed

lemma ProcessOne_profile:
  assumes "wDoProfile w" "ProcessOne w st blocks = Some ((w', st', out'), True)"
  shows "\<exists>ws. st' = profileTrack st ws \<and> (\<forall>v \<in> set ws. fixedFields v = fixedFields w) \<and>
              fixedFields w' = fixedFields w"
proof -
  from assms(2) obtain w1 st1 out1 where
    fed: "feed (StartNewTrack w, st, []) blocks = Some ((w1, st1, out1), True)"
    by (auto simp: ProcessOne_def split: option.splits if_splits)
  have "(StartNewTrack w, st, []) \<in> reachable w st" by (rule reachable.started)
  with fed have r: "(w1, st1, out1) \<in> reachable w st" by (rule feed_reachable)
  from reachable_fixed [OF r] have fixed: "fixedFields w1 = fixedFields w" by simp
  with assms(1) have profile: "wDoProfile w1" by (simp add: fixedFields_def)
  from reachable_profile [OF r assms(1)] obtain ws where
    ws: "st1 = gatherAll st ws" "\<forall>v \<in> set ws. fixedFields v = fixedFields w"
    by auto
  from assms(2) fed profile have "w' = w1" "st' = FinishTrackStatistics st1"
    by (simp_all add: ProcessOne_def)
  with ws fixed show ?thesis by (auto simp: profileTrack_def)
qed

lemma ProcessOne_total:
  assumes "wellFormed w"
  shows "\<exists>w' st' out' ok. ProcessOne w st blocks = Some ((w', st', out'), ok) \<and>
           fixedFields w' = fixedFields w"
proof -
  from assms have "flowing (StartNewTrack w)" by (rule flowing_StartNewTrack)
  from feed_total [OF this, of st "[]" blocks]
  obtain w1 st1 out1 ok where
    fed: "feed (StartNewTrack w, st, []) blocks = Some ((w1, st1, out1), ok)"
    and flow: "flowing w1" and fixed: "fixedFields w1 = fixedFields w"
    by auto
  from FinishTrack_total [OF flow, of st1 out1]
  obtain w2 st2 out2 where
    "FinishTrack (w1, st1, out1) = Some (w2, st2, out2)" "fixedFields w2 = fixedFields w1"
    by blast
  with fed fixed show ?thesis
    by (auto simp: ProcessOne_def)
qed

lemma wellFormed_fixed:
  assumes "wellFormed w" "fixedFields w' = fixedFields w"
    "length (mFreqSmoothingScratch w') = length (mFreqSmoothingScratch w)"
    "length (mQueue w') = length (mQueue w)"
    "list_all (\<lambda>record. length (mGains record) = nat (mSpectrumSize w)) (mQueue w')"
  shows "wellFormed w'"
  using assms by (simp add: wellFormed_def fixedFields_def)

section \<open>Well-formed workers stay well-formed\<close>

lemma list_all_update:
  assumes "list_all P xs" "i < length xs \<Longrightarrow> P x"
  shows "list_all P (xs[i := x])"
proof (cases "i < length xs")
  case True
  have "set (xs[i := x]) \<subseteq> insert x (set xs)" by (rule set_update_subset_insert)
  moreover from True have "P x" by (rule assms(2))
  ultimately show ?thesis using assms(1) by (auto simp: list_all_iff)
next
  case False
  then have "length xs \<le> i" by simp
  then have "xs[i := x] = xs" by (rule list_update_beyond)
  with assms(1) show ?thesis by (simp only:)
qed

lemma list_all_nth: "list_all P xs \<Longrightarrow> i < length xs \<Longrightarrow> P (xs ! i)"
  by (simp add: list_all_length)

lemma wellFormed_parts:
  assumes "wellFormed w"
  shows "1 \<le> mCenter w" "mCenter w < mHistoryLen w" "length (mQueue w) = nat (mHistoryLen w)"
    "nat (mCenter w) < length (mQueue w)" "nat (mCenter w - 1) < length (mQueue w)"
    "nat (mHistoryLen w - 1) < length (mQueue w)" "0 < length (mQueue w)"
    "list_all (\<lambda>record. length (mGains record) = nat (mSpectrumSize w)) (mQueue w)"
    "2 \<le> mSpectrumSize w" "0 < mNoiseAttenFactor w" "mNoiseAttenFactor w \<le> 1"
    "0 \<le> mFreqSmoothingBins w"
    "length (mFreqSmoothingScratch w) = nat (mSpectrumSize w)"
  using assms by (simp_all add: wellFormed_def)

lemma queue_ApplyFreqSmoothing [simp]:
  "mQueue (fst (ApplyFreqSmoothing w gains)) = mQueue w"
  by (simp add: ApplyFreqSmoothing_def Let_def)

lemma length_ApplyFreqSmoothing [simp]:
  "length (snd (ApplyFreqSmoothing w gains)) = length gains"
  "length (mFreqSmoothingScratch (fst (ApplyFreqSmoothing w gains))) =
     length (mFreqSmoothingScratch w)"
  by (simp_all add: ApplyFreqSmoothing_def Let_def)

lemma wellFormed_StartNewTrack:
  assumes "wellFormed w"
  shows "wellFormed (StartNewTrack w)"
proof (rule wellFormed_fixed [OF assms])
  show "list_all (\<lambda>record. length (mGains record) = nat (mSpectrumSize w)) (mQueue (StartNewTrack w))"
    using wellFormed_parts(8) [OF assms] by (simp add: StartNewTrack_def list_all_iff)
next
  show "fixedFields (StartNewTrack w) = fixedFields w" by simp
next
  show "length (mFreqSmoothingScratch (StartNewTrack w)) = length (mFreqSmoothingScratch w)"
    by (simp add: StartNewTrack_def)
next
  show "length (mQueue (StartNewTrack w)) = length (mQueue w)"
    by (simp add: StartNewTrack_def)
qed

lemma wellFormed_Fill:
  assumes "wellFormed w"
  shows "wellFormed (FillFirstHistoryWindow w)"
proof (rule wellFormed_fixed [OF assms])
  have "length (mGains (mQueue w ! 0)) = nat (mSpectrumSize w)"
    using list_all_nth [OF wellFormed_parts(8) [OF assms] wellFormed_parts(7) [OF assms]] .
  then show "list_all (\<lambda>record. length (mGains record) = nat (mSpectrumSize w))
          (mQueue (FillFirstHistoryWindow w))"
    using wellFormed_parts(8) [OF assms]
    by (auto simp: FillFirstHistoryWindow_def Let_def intro!: list_all_update)
next
  show "fixedFields (FillFirstHistoryWindow w) = fixedFields w" by simp
next
  show "length (mFreqSmoothingScratch (FillFirstHistoryWindow w)) = length (mFreqSmoothingScratch w)"
    by (simp add: FillFirstHistoryWindow_def Let_def)
next
  show "length (mQueue (FillFirstHistoryWindow w)) = length (mQueue w)"
    by (simp add: FillFirstHistoryWindow_def Let_def)
qed

lemma wellFormed_centerGains:
  assumes "wellFormed w"
  shows "wellFormed (centerGains w st)"
proof (rule wellFormed_fixed [OF assms])
  have "length (mGains (mQueue w ! nat (mCenter w))) = nat (mSpectrumSize w)"
    using list_all_nth [OF wellFormed_parts(8) [OF assms] wellFormed_parts(4) [OF assms]] .
  then show "list_all (\<lambda>record. length (mGains record) = nat (mSpectrumSize w))
          (mQueue (centerGains w st))"
    using wellFormed_parts(8) [OF assms]
    by (auto simp: centerGains_def Let_def intro!: list_all_update)
next
  show "fixedFields (centerGains w st) = fixedFields w" by simp
next
  show "length (mFreqSmoothingScratch (centerGains w st)) = length (mFreqSmoothingScratch w)"
    by (simp add: centerGains_def Let_def)
next
  show "length (mQueue (centerGains w st)) = length (mQueue w)"
    by (simp add: centerGains_def Let_def)
qed

lemma attackBand_shape:
  "length (attackBand w jj is queue) = length queue \<and>
   (list_all (\<lambda>record. length (mGains record) = n) queue \<longrightarrow>
    list_all (\<lambda>record. length (mGains record) = n) (attackBand w jj is queue))"
proof (induction "is" arbitrary: queue)
  case Nil
  then show ?case by simp
next
  case (Cons ii "is")
  have "list_all (\<lambda>record. length (mGains record) = n)
          (queue[ii := (queue ! ii)\<lparr>mGains := (mGains (queue ! ii))[jj := x]\<rparr>])"
    if "list_all (\<lambda>record. length (mGains record) = n) queue" for x
    using that by (auto intro!: list_all_update dest: list_all_nth)
  with Cons show ?case by (simp add: Let_def)
qed

lemma wellFormed_attack:
  assumes "wellFormed w"
  shows "wellFormed (attack w)"
proof -
  have fold: "length (foldl (\<lambda>queue jj. attackBand w jj is queue) q bands) = length q \<and>
      (list_all (\<lambda>record. length (mGains record) = n) q \<longrightarrow>
       list_all (\<lambda>record. length (mGains record) = n)
         (foldl (\<lambda>queue jj. attackBand w jj is queue) q bands))" for "is" q bands n
    by (induction bands arbitrary: q) (simp_all add: attackBand_shape)
  show ?thesis
  proof (rule wellFormed_fixed [OF assms])
    show "list_all (\<lambda>record. length (mGains record) = nat (mSpectrumSize w)) (mQueue (attack w))"
      using wellFormed_parts(8) [OF assms] fold by (simp add: attack_def)
  next
  show "fixedFields (attack w) = fixedFields w" by simp
next
  show "length (mFreqSmoothingScratch (attack w)) = length (mFreqSmoothingScratch w)"
    by (simp add: attack_def fold)
next
  show "length (mQueue (attack w)) = length (mQueue w)"
    by (simp add: attack_def fold)
qed
qed

lemma wellFormed_release:
  assumes "wellFormed w"
  shows "wellFormed (release w)"
proof (rule wellFormed_fixed [OF assms])
  have "length (mGains (mQueue w ! nat (mCenter w - 1))) = nat (mSpectrumSize w)"
    using list_all_nth [OF wellFormed_parts(8) [OF assms] wellFormed_parts(5) [OF assms]] .
  then show "list_all (\<lambda>record. length (mGains record) = nat (mSpectrumSize w))
          (mQueue (release w))"
    using wellFormed_parts(8) [OF assms]
    by (auto simp: release_def Let_def intro!: list_all_update)
next
  show "fixedFields (release w) = fixedFields w" by simp
next
  show "length (mFreqSmoothingScratch (release w)) = length (mFreqSmoothingScratch w)"
    by (simp add: release_def Let_def)
next
  show "length (mQueue (release w)) = length (mQueue w)"
    by (simp add: release_def Let_def)
qed

lemma wellFormed_buildGains:
  assumes "wellFormed w"
  shows "wellFormed (buildGains w st)"
  using assms
  by (simp add: buildGains_def Let_def wellFormed_centerGains wellFormed_attack wellFormed_release)

lemma wellFormed_synthesize:
  assumes "wellFormed w"
  shows "wellFormed (fst (synthesize w out))"
proof (rule wellFormed_fixed [OF assms])
  have "length (mGains (mQueue w ! nat (mHistoryLen w - 1))) = nat (mSpectrumSize w)"
    using list_all_nth [OF wellFormed_parts(8) [OF assms] wellFormed_parts(6) [OF assms]] .
  then show "list_all (\<lambda>record. length (mGains record) = nat (mSpectrumSize w))
          (mQueue (fst (synthesize w out)))"
    using wellFormed_parts(8) [OF assms]
    by (auto simp: synthesize_def Let_def split_beta intro!: list_all_update)
next
  show "fixedFields (fst (synthesize w out)) = fixedFields w" by simp
next
  show "length (mFreqSmoothingScratch (fst (synthesize w out))) = length (mFreqSmoothingScratch w)"
    by (simp add: synthesize_def Let_def split_beta)
next
  show "length (mQueue (fst (synthesize w out))) = length (mQueue w)"
    by (simp add: synthesize_def Let_def split_beta)
qed

lemma wellFormed_Rotate:
  assumes "wellFormed w"
  shows "wellFormed (RotateHistoryWindows w)"
proof (rule wellFormed_fixed [OF assms])
  have "mQueue w ! nat (mHistoryLen w - 1) \<in> set (mQueue w)"
    using wellFormed_parts(6) [OF assms] by simp
  then show "list_all (\<lambda>record. length (mGains record) = nat (mSpectrumSize w))
          (mQueue (RotateHistoryWindows w))"
    using wellFormed_parts(8) [OF assms]
    by (auto simp: RotateHistoryWindows_def Let_def list_all_iff dest: in_set_butlastD)
next
  show "fixedFields (RotateHistoryWindows w) = fixedFields w" by simp
next
  show "length (mFreqSmoothingScratch (RotateHistoryWindows w)) = length (mFreqSmoothingScratch w)"
    by (simp add: RotateHistoryWindows_def Let_def)
next
  show "length (mQueue (RotateHistoryWindows w)) = length (mQueue w)"
    by (simp add: RotateHistoryWindows_def Let_def)
qed

lemma fst_processWindow:
  "fst (processWindow (w, st, out)) =
     (let w2 = (if wDoProfile w then FillFirstHistoryWindow w
                else fst (ReduceNoise (FillFirstHistoryWindow w) st out));
          w3 = RotateHistoryWindows (w2\<lparr>mOutStepCount := mOutStepCount w2 + 1\<rparr>)
      in w3\<lparr>mInWaveBuffer :=
              memmove (mInWaveBuffer w3) 0 (drop (nat (mStepSize w3)) (mInWaveBuffer w3))
                (mWindowSize w3 - mStepSize w3),
            mInWavePos := mInWavePos w3 - mStepSize w3\<rparr>)"
proof -
  have "fixedFields (FillFirstHistoryWindow w) = fixedFields w" by simp
  then have "wDoProfile (FillFirstHistoryWindow w) = wDoProfile w"
    by (simp add: fixedFields_def)
  then show ?thesis
    by (simp add: processWindow_def Let_def split_beta)
qed

lemma wellFormed_counters [simp]:
  "wellFormed (w\<lparr>mOutStepCount := a\<rparr>) = wellFormed w"
  "wellFormed (w\<lparr>mInWavePos := b\<rparr>) = wellFormed w"
  "wellFormed (w\<lparr>mInWaveBuffer := c\<rparr>) = wellFormed w"
  "wellFormed (w\<lparr>mInSampleCount := d\<rparr>) = wellFormed w"
  by (simp_all add: wellFormed_def)

lemma wellFormed_ReduceNoise:
  assumes "wellFormed w"
  shows "wellFormed (fst (ReduceNoise w st out))"
  using assms by (simp add: ReduceNoise_def wellFormed_synthesize wellFormed_buildGains)

lemma wellFormed_processWindow:
  assumes "wellFormed w"
  shows "wellFormed (fst (processWindow (w, st, out)))"
  using assms
  by (simp add: fst_processWindow Let_def wellFormed_Rotate wellFormed_Fill wellFormed_ReduceNoise)

lemma reachable_wellFormed:
  assumes "pass \<in> reachable w0 st0" "wellFormed w0"
  shows "wellFormed (fst pass)"
  using assms(1)
proof (induction rule: reachable.induct)
  case started
  from assms(2) show ?case by (simp add: wellFormed_StartNewTrack)
next
  case (windowed w statistics outputTrack)
  then show ?case by (simp add: wellFormed_processWindow)
qed simp_all

lemma ProcessOne_wellFormed:
  assumes "wellFormed w" "ProcessOne w st blocks = Some ((w', st', out'), ok)"
  shows "wellFormed w'"
proof -
  have start: "(StartNewTrack w, st, []) \<in> reachable w st" by (rule reachable.started)
  from assms(2) obtain w1 st1 out1 ok1 where
    fed: "feed (StartNewTrack w, st, []) blocks = Some ((w1, st1, out1), ok1)"
    by (auto simp: ProcessOne_def split: option.splits)
  from fed start have r1: "(w1, st1, out1) \<in> reachable w st" by (rule feed_reachable)
  show ?thesis
  proof (cases "ok1 \<and> \<not> wDoProfile w1")
    case False
    with assms(2) fed have "w' = w1" by (auto simp: ProcessOne_def split: if_splits)
    with reachable_wellFormed [OF r1 assms(1)] show ?thesis by simp
  next
    case True
    with assms(2) fed obtain st2 out2 where
      "FinishTrack (w1, st1, out1) = Some (w', st2, out2)"
      by (auto simp: ProcessOne_def split: option.splits)
    from this r1 have "(w', st2, out2) \<in> reachable w st" by (rule FinishTrack_reachable)
    from reachable_wellFormed [OF this assms(1)] show ?thesis by simp
  qed
qed

lemma processTracks_profile:
  assumes "wDoProfile w" "processTracks w st tracks = Some (True, w', st', outs)"
  shows "\<exists>frames. st' = profilePass st frames \<and>
           (\<forall>ws \<in> set frames. \<forall>v \<in> set ws. fixedFields v = fixedFields w)"
  using assms
proof (induction tracks arbitrary: w st outs)
  case Nil
  then have "st' = profilePass st []" by (simp add: profilePass_def)
  then show ?case by force
next
  case (Cons track tracks)
  show ?case
  proof (cases "selectionMeetsTrack track")
    case False
    with Cons.prems have "processTracks w st tracks = Some (True, w', st', outs)"
      by (simp split: if_splits)
    from Cons.IH [OF Cons.prems(1) this] show ?thesis .
  next
    case True
    with Cons.prems(2) obtain w1 st1 out1 outs1 where
      one: "ProcessOne w st (trackBlocks track) = Some ((w1, st1, out1), True)"
      and rest: "processTracks w1 st1 tracks = Some (True, w', st', outs1)"
      by (auto split: if_splits option.splits)
    from ProcessOne_profile [OF Cons.prems(1) one] obtain ws where
      ws: "st1 = profileTrack st ws" "\<forall>v \<in> set ws. fixedFields v = fixedFields w"
      and fixed: "fixedFields w1 = fixedFields w"
      by auto
    from fixed Cons.prems(1) have "wDoProfile w1" by (simp add: fixedFields_def)
    from Cons.IH [OF this rest] obtain frames where
      frames: "st' = profilePass st1 frames"
      "\<forall>ws \<in> set frames. \<forall>v \<in> set ws. fixedFields v = fixedFields w1"
      by auto
    have "st' = profilePass st (ws # frames)"
      using frames(1) ws(1) by (simp add: profilePass_def)
    moreover have "\<forall>ws \<in> set (ws # frames). \<forall>v \<in> set ws. fixedFields v = fixedFields w"
      using frames(2) ws(2) fixed by simp
    ultimately show ?thesis by blast
  qed
qed

lemma processTracks_total:
  assumes "wellFormed w"
  shows "\<exists>result. processTracks w st tracks = Some result"
  using assms
proof (induction tracks arbitrary: w st)
  case Nil
  have "processTracks w st [] = Some (True, w, st, [])" by simp
  then show ?case by (rule exI)
next
  case (Cons track tracks)
  from ProcessOne_total [OF Cons.prems, of st "trackBlocks track"]
  obtain w1 st1 out1 ok where
    one: "ProcessOne w st (trackBlocks track) = Some ((w1, st1, out1), ok)"
    by blast
  from ProcessOne_wellFormed [OF Cons.prems one] have "wellFormed w1" .
  from Cons.IH [OF this, of st1] obtain result where
    "processTracks w1 st1 tracks = Some result" by blast
  moreover from Cons.IH [OF Cons.prems, of st] obtain result' where
    "processTracks w st tracks = Some result'" by blast
  ultimately have rest:
    "processTracks w1 st1 tracks = Some result" "processTracks w st tracks = Some result'"
    by simp_all
  obtain b w2 st2 outs where result: "result = (b, w2, st2, outs)" by (cases result)
  show ?case
  proof (cases "GetRate track \<noteq> mSampleRate w")
    case True
    then have "processTracks w st (track # tracks) = Some (False, w, st, [])" by simp
    then show ?thesis by (rule exI)
  next
    case rate: False
    show ?thesis
    proof (cases "selectionMeetsTrack track")
      case False
      with rate rest(2) have "processTracks w st (track # tracks) = Some result'" by simp
      then show ?thesis by (rule exI)
    next
      case True
      show ?thesis
      proof (cases ok)
        case False
        with rate True one
        have "processTracks w st (track # tracks) = Some (False, w1, st1, [])" by simp
        then show ?thesis by (rule exI)
      next
        case ok: True
        with rate True one rest(1) result
        have "processTracks w st (track # tracks) = Some (b, w2, st2, out1 # outs)" by simp
        then show ?thesis by (rule exI)
      qed
    qed
  qed
qed

lemma Process_profile:
  assumes "wDoProfile w" "Process w st tracks = Some (True, w', st', outs)"
  shows "\<exists>frames. st' = profilePass st frames \<and>
           (\<forall>ws \<in> set frames. \<forall>v \<in> set ws. mSpectrumSize v = mSpectrumSize w)"
proof -
  from assms(2) have "processTracks w st tracks = Some (True, w', st', outs)"
    by (auto simp: Process_def split: option.splits if_splits)
  from processTracks_profile [OF assms(1) this] show ?thesis
    by (auto simp: fixedFields_def)
qed

lemma Process_total:
  assumes "wellFormed w"
  shows "\<exists>result. Process w st tracks = Some result"
  using processTracks_total [OF assms, of st tracks]
  by (auto simp: Process_def split: option.splits)

section \<open>The gains are not below the attenuation factor\<close>

lemma list_all_assign:
  assumes "list_all P v"
    and "\<And>i. i < length v \<Longrightarrow> start \<le> int i \<Longrightarrow> int i < finish \<Longrightarrow> P (f i)"
  shows "list_all P (assign v start finish f)"
  using assms by (auto simp: assign_def list_all_iff)

lemma list_all_fill:
  assumes "list_all P v" "P x"
  shows "list_all P (fill v start finish x)"
  using assms by (simp add: fill_def list_all_assign)

lemma attenuation_fixed:
  assumes "fixedFields w' = fixedFields w"
  shows "mNoiseAttenFactor w' = mNoiseAttenFactor w" "wNoiseReductionChoice w' = wNoiseReductionChoice w"
    "mCenter w' = mCenter w" "mSpectrumSize w' = mSpectrumSize w"
  using assms by (simp_all add: fixedFields_def)

lemma gainsAbove_fixed:
  assumes "fixedFields w' = fixedFields w"
    and "list_all (\<lambda>record. list_all (\<lambda>gain. mNoiseAttenFactor w \<le> gain) (mGains record)) (mQueue w')"
  shows "gainsAbove w'"
  using assms(2) by (simp add: gainsAbove_def attenuation_fixed(1) [OF assms(1)])

lemma gainsAbove_record:
  assumes "gainsAbove w" "k < length (mQueue w)"
  shows "list_all (\<lambda>gain. mNoiseAttenFactor w \<le> gain) (mGains (mQueue w ! k))"
  using assms list_all_nth [of _ "mQueue w" k] by (simp add: gainsAbove_def)

lemma gainsAbove_StartNewTrack:
  assumes "wellFormed w"
  shows "gainsAbove (StartNewTrack w)"
proof (rule gainsAbove_fixed)
  show "fixedFields (StartNewTrack w) = fixedFields w" by simp
next
  have "list_all (\<lambda>gain. mNoiseAttenFactor w \<le> gain)
          (fill (mGains r) 0 (mSpectrumSize w) (mNoiseAttenFactor w))"
    if "length (mGains r) = nat (mSpectrumSize w)" for r
  proof -
    have "fill (mGains r) 0 (mSpectrumSize w) (mNoiseAttenFactor w) ! i = mNoiseAttenFactor w"
      if "i < length (mGains r)" for i
      using that \<open>length (mGains r) = nat (mSpectrumSize w)\<close>
      by (simp add: nth_fill zless_nat_eq_int_zless)
    then show ?thesis by (auto simp: list_all_iff in_set_conv_nth)
  qed
  then show "list_all (\<lambda>record. list_all (\<lambda>gain. mNoiseAttenFactor w \<le> gain) (mGains record))
          (mQueue (StartNewTrack w))"
    using wellFormed_parts(8) [OF assms] by (auto simp: StartNewTrack_def list_all_iff)
qed

lemma gainsAbove_Fill:
  assumes "wellFormed w" "gainsAbove w"
  shows "gainsAbove (FillFirstHistoryWindow w)"
proof (rule gainsAbove_fixed)
  show "fixedFields (FillFirstHistoryWindow w) = fixedFields w" by simp
next
  note first = gainsAbove_record [OF assms(2) wellFormed_parts(7) [OF assms(1)]]
  then have "list_all (\<lambda>gain. mNoiseAttenFactor w \<le> gain)
      (fill (mGains (mQueue w ! 0)) 0 (mSpectrumSize w) (mNoiseAttenFactor w))"
    by (simp add: list_all_fill)
  with first assms(2)
  show "list_all (\<lambda>record. list_all (\<lambda>gain. mNoiseAttenFactor w \<le> gain) (mGains record))
          (mQueue (FillFirstHistoryWindow w))"
    by (auto simp: FillFirstHistoryWindow_def Let_def gainsAbove_def intro!: list_all_update)
qed

lemma gainsAbove_centerGains:
  assumes "wellFormed w" "wNoiseReductionChoice w \<noteq> NRC_ISOLATE_NOISE" "gainsAbove w"
  shows "gainsAbove (centerGains w st)"
proof (rule gainsAbove_fixed)
  show "fixedFields (centerGains w st) = fixedFields w" by simp
next
  let ?P = "\<lambda>gain. mNoiseAttenFactor w \<le> gain"
  let ?g = "mGains (mQueue w ! nat (mCenter w))"
  let ?outside = "fill (fill ?g 0 (mBinLow w) 1) (mBinHigh w) (mSpectrumSize w) 1"
  note one = wellFormed_parts(11) [OF assms(1)]
  have "list_all ?P ?g" by (rule gainsAbove_record [OF assms(3) wellFormed_parts(4) [OF assms(1)]])
  with one have outside: "list_all ?P ?outside" by (simp add: list_all_fill)
  have "list_all ?P
      (assign ?outside (mBinLow w) (mBinHigh w)
         (\<lambda>jj. if \<not> isNoise (Classify w st jj) then 1 else ?outside ! jj))"
  proof (rule list_all_assign [OF outside])
    fix i assume "i < length ?outside"
    with outside have "?P (?outside ! i)" by (rule list_all_nth)
    with one show "?P (if \<not> isNoise (Classify w st i) then 1 else ?outside ! i)" by simp
  qed
  with assms(2,3)
  show "list_all (\<lambda>record. list_all ?P (mGains record)) (mQueue (centerGains w st))"
    by (auto simp: centerGains_def Let_def gainsAbove_def intro!: list_all_update)
qed

lemma attackBand_above:
  assumes "list_all (\<lambda>record. list_all (\<lambda>gain. mNoiseAttenFactor w \<le> gain) (mGains record)) queue"
  shows "list_all (\<lambda>record. list_all (\<lambda>gain. mNoiseAttenFactor w \<le> gain) (mGains record))
           (attackBand w jj is queue)"
  using assms
proof (induction "is" arbitrary: queue)
  case Nil
  then show ?case by simp
next
  case (Cons ii "is")
  let ?P = "\<lambda>gain. mNoiseAttenFactor w \<le> gain"
  have "list_all (\<lambda>record. list_all ?P (mGains record))
          (queue[ii := (queue ! ii)\<lparr>mGains := (mGains (queue ! ii))[jj := max (mNoiseAttenFactor w) x]\<rparr>])"
    for x
  proof (rule list_all_update [OF Cons.prems])
    assume "ii < length queue"
    with Cons.prems have "list_all ?P (mGains (queue ! ii))" by (rule list_all_nth)
    then have "list_all ?P ((mGains (queue ! ii))[jj := max (mNoiseAttenFactor w) x])"
      by (rule list_all_update) simp
    then show "list_all ?P
        (mGains ((queue ! ii)\<lparr>mGains := (mGains (queue ! ii))[jj := max (mNoiseAttenFactor w) x]\<rparr>))"
      by simp
  qed
  with Cons show ?case by (simp add: Let_def)
qed

lemma gainsAbove_attack:
  assumes "gainsAbove w"
  shows "gainsAbove (attack w)"
proof (rule gainsAbove_fixed)
  show "fixedFields (attack w) = fixedFields w" by simp
next
  have "list_all (\<lambda>record. list_all (\<lambda>gain. mNoiseAttenFactor w \<le> gain) (mGains record))
          (foldl (\<lambda>queue jj. attackBand w jj is queue) q bands)"
    if "list_all (\<lambda>record. list_all (\<lambda>gain. mNoiseAttenFactor w \<le> gain) (mGains record)) q"
    for "is" q bands
    using that by (induction bands arbitrary: q) (simp_all add: attackBand_above)
  with assms
  show "list_all (\<lambda>record. list_all (\<lambda>gain. mNoiseAttenFactor w \<le> gain) (mGains record))
          (mQueue (attack w))"
    by (simp add: attack_def gainsAbove_def)
qed

lemma gainsAbove_release:
  assumes "gainsAbove w"
  shows "gainsAbove (release w)"
proof (rule gainsAbove_fixed)
  show "fixedFields (release w) = fixedFields w" by simp
next
  let ?P = "\<lambda>gain. mNoiseAttenFactor w \<le> gain"
  let ?next = "mGains (mQueue w ! nat (mCenter w - 1))"
  have "list_all ?P
      (assign ?next 0 (mSpectrumSize w)
         (\<lambda>nn. max (?next ! nn)
                 (max (mNoiseAttenFactor w)
                    (mGains (mQueue w ! nat (mCenter w)) ! nn * mOneBlockRelease w))))"
    if "list_all ?P ?next"
    using that by (rule list_all_assign) simp
  with assms
  show "list_all (\<lambda>record. list_all ?P (mGains record)) (mQueue (release w))"
    by (auto simp: release_def Let_def gainsAbove_def intro!: list_all_update dest: list_all_nth)
qed

lemma foldl_sum_lower:
  assumes "\<forall>j \<in> set js. c \<le> f j"
  shows "acc + real (length js) * c \<le> foldl (\<lambda>acc j. acc + f j) acc js"
  using assms
proof (induction js arbitrary: acc)
  case Nil
  then show ?case by simp
next
  case (Cons j js)
  from Cons.prems have "c \<le> f j" and rest: "\<forall>j \<in> set js. c \<le> f j" by simp_all
  from Cons.IH [OF rest, of "acc + f j"] \<open>c \<le> f j\<close> show ?case
    by (simp add: algebra_simps)
qed

lemma smoothing_above:
  assumes "wellFormed w" "length gains = nat (mSpectrumSize w)"
    and "list_all (\<lambda>gain. mNoiseAttenFactor w \<le> gain) gains"
  shows "list_all (\<lambda>gain. mNoiseAttenFactor w \<le> gain) (snd (ApplyFreqSmoothing w gains))"
proof (cases "mFreqSmoothingBins w = 0")
  case True
  with assms(3) show ?thesis by (simp add: ApplyFreqSmoothing_def)
next
  case False
  define S where "S = mSpectrumSize w"
  define B where "B = mFreqSmoothingBins w"
  define a where "a = mNoiseAttenFactor w"
  define scratch0 where "scratch0 = fill (mFreqSmoothingScratch w) 0 S 0"
  define logs where "logs = assign gains 0 S (\<lambda>ii. ln (gains ! ii))"
  define scratch where "scratch =
    assign scratch0 0 S
      (\<lambda>ii. let j0 = max 0 (int ii - B); j1 = min (S - 1) (int ii + B)
            in foldl (\<lambda>acc jj. acc + logs ! jj) (scratch0 ! ii) [nat j0..<nat (j1 + 1)]
               / real_of_int (j1 - j0 + 1))"
  have result: "snd (ApplyFreqSmoothing w gains) = assign logs 0 S (\<lambda>ii. exp (scratch ! ii))"
    using False
    by (simp add: ApplyFreqSmoothing_def Let_def S_def B_def scratch0_def logs_def scratch_def)
  have a: "0 < a" and B: "0 \<le> B"
    using wellFormed_parts(10,12) [OF assms(1)] by (simp_all add: a_def B_def)
  have len: "length gains = nat S" "length scratch0 = nat S" "length logs = nat S"
    using assms(2) wellFormed_parts(13) [OF assms(1)]
    by (simp_all add: S_def scratch0_def logs_def)
  have above: "a \<le> gains ! jj" if "jj < nat S" for jj
    using list_all_nth [OF assms(3), of jj] that len(1) by (simp add: a_def)
  have log: "ln a \<le> logs ! jj" if "jj < nat S" for jj
  proof -
    from that have "logs ! jj = ln (gains ! jj)"
      by (simp add: logs_def nth_assign len(1) zless_nat_eq_int_zless)
    moreover from above [OF that] a have "ln a \<le> ln (gains ! jj)" by simp
    ultimately show ?thesis by simp
  qed
  have mean: "ln a \<le> scratch ! i" if i: "i < nat S" for i
  proof -
    define j0 where "j0 = max 0 (int i - B)"
    define j1 where "j1 = min (S - 1) (int i + B)"
    from i have iS: "int i < S" by (simp add: zless_nat_eq_int_zless)
    have range: "0 \<le> j0" "j0 \<le> int i" "int i \<le> j1" "j1 < S"
      using B iS by (simp_all add: j0_def j1_def)
    have zero: "scratch0 ! i = 0"
      using i iS wellFormed_parts(13) [OF assms(1)]
      by (simp add: scratch0_def nth_fill S_def)
    have quotient: "scratch ! i =
        foldl (\<lambda>acc jj. acc + logs ! jj) 0 [nat j0..<nat (j1 + 1)] / real_of_int (j1 - j0 + 1)"
      using i iS by (simp add: scratch_def nth_assign len(2) Let_def j0_def j1_def zero)
    have "\<forall>jj \<in> set [nat j0..<nat (j1 + 1)]. ln a \<le> logs ! jj"
    proof
      fix jj assume "jj \<in> set [nat j0..<nat (j1 + 1)]"
      then have "jj < nat (j1 + 1)" by simp
      with range have "jj < nat S" by simp
      then show "ln a \<le> logs ! jj" by (rule log)
    qed
    from foldl_sum_lower [OF this, of 0]
    have total: "real (length [nat j0..<nat (j1 + 1)]) * ln a \<le>
        foldl (\<lambda>acc jj. acc + logs ! jj) 0 [nat j0..<nat (j1 + 1)]"
      by simp
    define n where "n = j1 - j0 + 1"
    have "length [nat j0..<nat (j1 + 1)] = nat n"
      using range by (simp add: n_def nat_diff_distrib')
    moreover have n: "1 \<le> n" using range by (simp add: n_def)
    ultimately have count: "real (length [nat j0..<nat (j1 + 1)]) = real_of_int n" by simp
    from n have pos: "0 < real_of_int n" by simp
    from total have "real_of_int n * ln a \<le>
        foldl (\<lambda>acc jj. acc + logs ! jj) 0 [nat j0..<nat (j1 + 1)]"
      by (simp only: count)
    then have "ln a * real_of_int n \<le>
        foldl (\<lambda>acc jj. acc + logs ! jj) 0 [nat j0..<nat (j1 + 1)]"
      by (simp only: mult.commute)
    with pos have "ln a \<le>
        foldl (\<lambda>acc jj. acc + logs ! jj) 0 [nat j0..<nat (j1 + 1)] / real_of_int n"
      by (simp only: pos_le_divide_eq)
    then have "ln a \<le>
        foldl (\<lambda>acc jj. acc + logs ! jj) 0 [nat j0..<nat (j1 + 1)] / real_of_int (j1 - j0 + 1)"
      by (simp only: n_def)
    with quotient show ?thesis by simp
  qed
  have "a \<le> assign logs 0 S (\<lambda>ii. exp (scratch ! ii)) ! i" if i: "i < nat S" for i
  proof -
    from i have "assign logs 0 S (\<lambda>ii. exp (scratch ! ii)) ! i = exp (scratch ! i)"
      by (simp add: nth_assign len(3) zless_nat_eq_int_zless)
    moreover from mean [OF i] have "exp (ln a) \<le> exp (scratch ! i)" by simp
    ultimately show ?thesis using a by simp
  qed
  then show ?thesis
    by (auto simp: result list_all_iff in_set_conv_nth len(3) a_def)
qed

lemma gainsAbove_synthesize:
  assumes "wellFormed w" "wNoiseReductionChoice w \<noteq> NRC_ISOLATE_NOISE" "gainsAbove w"
  shows "gainsAbove (fst (synthesize w out))"
proof (rule gainsAbove_fixed)
  show "fixedFields (fst (synthesize w out)) = fixedFields w" by simp
next
  let ?oldest = "nat (mHistoryLen w - 1)"
  have "length (mGains (mQueue w ! ?oldest)) = nat (mSpectrumSize w)"
    using list_all_nth [OF wellFormed_parts(8) [OF assms(1)] wellFormed_parts(6) [OF assms(1)]] .
  moreover have "list_all (\<lambda>gain. mNoiseAttenFactor w \<le> gain) (mGains (mQueue w ! ?oldest))"
    by (rule gainsAbove_record [OF assms(3) wellFormed_parts(6) [OF assms(1)]])
  ultimately have "list_all (\<lambda>gain. mNoiseAttenFactor w \<le> gain)
      (snd (ApplyFreqSmoothing w (mGains (mQueue w ! ?oldest))))"
    by (rule smoothing_above [OF assms(1)])
  with assms(2,3)
  show "list_all (\<lambda>record. list_all (\<lambda>gain. mNoiseAttenFactor w \<le> gain) (mGains record))
          (mQueue (fst (synthesize w out)))"
    by (auto simp: synthesize_def Let_def split_beta gainsAbove_def intro!: list_all_update)
qed

lemma gainsAbove_Rotate:
  assumes "wellFormed w" "gainsAbove w"
  shows "gainsAbove (RotateHistoryWindows w)"
proof (rule gainsAbove_fixed)
  show "fixedFields (RotateHistoryWindows w) = fixedFields w" by simp
next
  have "mQueue w ! nat (mHistoryLen w - 1) \<in> set (mQueue w)"
    using wellFormed_parts(6) [OF assms(1)] by simp
  then show "list_all (\<lambda>record. list_all (\<lambda>gain. mNoiseAttenFactor w \<le> gain) (mGains record))
          (mQueue (RotateHistoryWindows w))"
    using assms(2)
    by (auto simp: RotateHistoryWindows_def Let_def list_all_iff gainsAbove_def
        dest: in_set_butlastD)
qed

lemma gainsAbove_counters [simp]:
  "gainsAbove (w\<lparr>mOutStepCount := a\<rparr>) = gainsAbove w"
  "gainsAbove (w\<lparr>mInWavePos := b\<rparr>) = gainsAbove w"
  "gainsAbove (w\<lparr>mInWaveBuffer := c\<rparr>) = gainsAbove w"
  "gainsAbove (w\<lparr>mInSampleCount := d\<rparr>) = gainsAbove w"
  by (simp_all add: gainsAbove_def)

lemma gainsAbove_buildGains:
  assumes "wellFormed w" "wNoiseReductionChoice w \<noteq> NRC_ISOLATE_NOISE" "gainsAbove w"
  shows "gainsAbove (buildGains w st)"
proof -
  have "wNoiseReductionChoice (centerGains w st) = wNoiseReductionChoice w"
    by (rule attenuation_fixed) simp
  moreover have "gainsAbove (release (attack (centerGains w st)))"
    by (intro gainsAbove_release gainsAbove_attack gainsAbove_centerGains assms)
  ultimately show ?thesis using assms(2) by (simp add: buildGains_def Let_def)
qed

lemma gainsAbove_ReduceNoise:
  assumes "wellFormed w" "wNoiseReductionChoice w \<noteq> NRC_ISOLATE_NOISE" "gainsAbove w"
  shows "gainsAbove (fst (ReduceNoise w st out))"
proof -
  have "wNoiseReductionChoice (buildGains w st) = wNoiseReductionChoice w"
    by (rule attenuation_fixed) simp
  with assms(2) have "wNoiseReductionChoice (buildGains w st) \<noteq> NRC_ISOLATE_NOISE" by simp
  with wellFormed_buildGains [OF assms(1)] show ?thesis
    unfolding ReduceNoise_def
    by (rule gainsAbove_synthesize) (rule gainsAbove_buildGains [OF assms])
qed

lemma gainsAbove_processWindow:
  assumes "wellFormed w" "wNoiseReductionChoice w \<noteq> NRC_ISOLATE_NOISE" "gainsAbove w"
  shows "gainsAbove (fst (processWindow (w, st, out)))"
proof -
  let ?w1 = "FillFirstHistoryWindow w"
  have wf1: "wellFormed ?w1" by (rule wellFormed_Fill [OF assms(1)])
  have "wNoiseReductionChoice ?w1 = wNoiseReductionChoice w" by (rule attenuation_fixed) simp
  with assms(2) have mode1: "wNoiseReductionChoice ?w1 \<noteq> NRC_ISOLATE_NOISE" by simp
  have above1: "gainsAbove ?w1" by (rule gainsAbove_Fill [OF assms(1,3)])
  note reduced = gainsAbove_ReduceNoise [OF wf1 mode1 above1, of st out]
  note wf2 = wellFormed_ReduceNoise [OF wf1, of st out]
  show ?thesis
    using wf1 above1 reduced wf2
    by (simp add: fst_processWindow Let_def gainsAbove_Rotate)
qed

lemma reachable_gainsAbove:
  assumes "pass \<in> reachable w0 st0" "wellFormed w0" "wNoiseReductionChoice w0 \<noteq> NRC_ISOLATE_NOISE"
  shows "gainsAbove (fst pass)"
  using assms(1)
proof (induction rule: reachable.induct)
  case started
  from assms(2) show ?case by (simp add: gainsAbove_StartNewTrack)
next
  case (counted w statistics outputTrack blockSize)
  then show ?case by simp
next
  case (copied w statistics outputTrack avail buffer)
  then show ?case by simp
next
  case (windowed w statistics outputTrack)
  from reachable_wellFormed [OF windowed(1) assms(2)] have wf: "wellFormed w" by simp
  from reachable_fixed [OF windowed(1)] have "fixedFields w = fixedFields w0" by simp
  then have "wNoiseReductionChoice w = wNoiseReductionChoice w0" by (rule attenuation_fixed)
  with assms(3) have "wNoiseReductionChoice w \<noteq> NRC_ISOLATE_NOISE" by simp
  with wf windowed(3) show ?case by (simp add: gainsAbove_processWindow)
qed

lemma smallSettings_ranges:
  "0 \<le> mNoiseGain smallSettings" "0 \<le> mFreqSmoothingHz smallSettings"
  by (simp_all add: smallSettings_def defaultSettings_def)

text \<open>
  C3. When the worker does not isolate the noise (it reduces it or leaves the residue),
  every gain of every record of the queue is at least \<open>mNoiseAttenFactor\<close> after
  \<open>StartNewTrack\<close> and in every state of the pass after it; and on any well-formed worker
  \<open>v\<close> whose gains have this bound, each operation that writes gains keeps it: the
  filling of the first record, the gains of the center, the attack, the release, the
  smoothing over frequency of the gains of the last record, the synthesis that stores
  them, and the rotation of the queue.
\<close>

theorem gains_not_below_attenuation:
  assumes "wellFormed w0" and "wNoiseReductionChoice w0 \<noteq> NRC_ISOLATE_NOISE"
    and "(w, statistics, outputTrack) \<in> reachable w0 statistics0"
    and "wellFormed v" and "wNoiseReductionChoice v \<noteq> NRC_ISOLATE_NOISE" and "gainsAbove v"
  shows "gainsAbove (StartNewTrack w0) \<and> gainsAbove w \<and>
         gainsAbove (FillFirstHistoryWindow v) \<and>
         gainsAbove (centerGains v statistics) \<and>
         gainsAbove (attack v) \<and>
         gainsAbove (release v) \<and>
         list_all (\<lambda>gain. mNoiseAttenFactor v \<le> gain)
           (snd (ApplyFreqSmoothing v (mGains (mQueue v ! nat (mHistoryLen v - 1))))) \<and>
         gainsAbove (fst (synthesize v outputTrack)) \<and>
         gainsAbove (RotateHistoryWindows v)"
proof -
  have "gainsAbove (fst (w, statistics, outputTrack))"
    using assms(3,1,2) by (rule reachable_gainsAbove)
  then have reached: "gainsAbove w" by simp
  let ?oldest = "nat (mHistoryLen v - 1)"
  have "length (mGains (mQueue v ! ?oldest)) = nat (mSpectrumSize v)"
    using list_all_nth [OF wellFormed_parts(8) [OF assms(4)] wellFormed_parts(6) [OF assms(4)]] .
  moreover have "list_all (\<lambda>gain. mNoiseAttenFactor v \<le> gain) (mGains (mQueue v ! ?oldest))"
    by (rule gainsAbove_record [OF assms(6) wellFormed_parts(6) [OF assms(4)]])
  ultimately have smooth: "list_all (\<lambda>gain. mNoiseAttenFactor v \<le> gain)
      (snd (ApplyFreqSmoothing v (mGains (mQueue v ! ?oldest))))"
    by (rule smoothing_above [OF assms(4)])
  from reached smooth
    gainsAbove_StartNewTrack [OF assms(1)]
    gainsAbove_Fill [OF assms(4,6)]
    gainsAbove_centerGains [OF assms(4,5,6), of statistics]
    gainsAbove_attack [OF assms(6)]
    gainsAbove_release [OF assms(6)]
    gainsAbove_synthesize [OF assms(4,5,6), of outputTrack]
    gainsAbove_Rotate [OF assms(4,6)]
  show ?thesis by simp
qed

theorem gains_not_below_attenuation_witness:
  "wellFormed (new_Worker idleFFT smallSettings 44100 (- 1) (- 1)) \<and>
   wNoiseReductionChoice (new_Worker idleFFT smallSettings 44100 (- 1) (- 1)) \<noteq> NRC_ISOLATE_NOISE \<and>
   gainsAbove (StartNewTrack (new_Worker idleFFT smallSettings 44100 (- 1) (- 1))) \<and>
   gainsAbove (release (StartNewTrack (new_Worker idleFFT smallSettings 44100 (- 1) (- 1)))) \<and>
   gainsAbove (fst (synthesize (StartNewTrack (new_Worker idleFFT smallSettings 44100 (- 1) (- 1))) []))"
proof -
  let ?w0 = "new_Worker idleFFT smallSettings 44100 (- 1) (- 1)"
  let ?st = "new_Statistics 5 44100 WT_RECTANGULAR_HANN"
  have wf: "wellFormed ?w0"
    using smallSettings_worker(4) smallSettings_ranges by (intro wellFormed_new_Worker) simp_all
  have mode: "wNoiseReductionChoice ?w0 \<noteq> NRC_ISOLATE_NOISE"
    by (simp add: smallSettings_worker(3) NRC_REDUCE_NOISE_def NRC_ISOLATE_NOISE_def)
  have start: "(StartNewTrack ?w0, ?st, []) \<in> reachable ?w0 ?st" by (rule reachable.started)
  have wf1: "wellFormed (StartNewTrack ?w0)" by (rule wellFormed_StartNewTrack [OF wf])
  have "wNoiseReductionChoice (StartNewTrack ?w0) = wNoiseReductionChoice ?w0"
    by (rule attenuation_fixed) simp
  with mode have mode1: "wNoiseReductionChoice (StartNewTrack ?w0) \<noteq> NRC_ISOLATE_NOISE"
    by simp
  have above: "gainsAbove (StartNewTrack ?w0)" by (rule gainsAbove_StartNewTrack [OF wf])
  from gains_not_below_attenuation [OF wf mode start wf1 mode1 above] wf mode
  show ?thesis by blast
qed

section \<open>The gains of an isolated noise are 0 or 1\<close>

lemma isolated_iff:
  "isolated w \<longleftrightarrow>
     (\<forall>k. nat (mCenter w + 1) \<le> k \<and> k < nat (mHistoryLen w) \<and>
          int k - mCenter w \<le> mOutStepCount w + (mHistoryLen w - 1) + (mStepsPerWindow w - 1) \<longrightarrow>
          zeroOrOne (mGains (mQueue w ! k)))"
  by (auto simp: isolated_def list_all_iff)

lemma isolated_counters [simp]:
  "isolated (w\<lparr>mInWavePos := b\<rparr>) = isolated w"
  "isolated (w\<lparr>mInWaveBuffer := c\<rparr>) = isolated w"
  "isolated (w\<lparr>mInSampleCount := d\<rparr>) = isolated w"
  by (simp_all add: isolated_def)

lemma zeroOrOne_centerGains:
  assumes "wellFormed w" "wNoiseReductionChoice w = NRC_ISOLATE_NOISE"
  shows "zeroOrOne (mGains (mQueue (centerGains w st) ! nat (mCenter w)))"
proof -
  let ?g = "mGains (mQueue w ! nat (mCenter w))"
  let ?new = "assign (fill (fill ?g 0 (mBinLow w) 0) (mBinHigh w) (mSpectrumSize w) 0)
                (mBinLow w) (mBinHigh w) (\<lambda>jj. if isNoise (Classify w st jj) then 1 else 0)"
  have len: "length ?g = nat (mSpectrumSize w)"
    using list_all_nth [OF wellFormed_parts(8) [OF assms(1)] wellFormed_parts(4) [OF assms(1)]] .
  have "?new ! i = 0 \<or> ?new ! i = 1" if "i < length ?g" for i
    using that len by (auto simp: nth_assign nth_fill zless_nat_eq_int_zless)
  then have entry: "?new ! i = 0 \<or> ?new ! i = 1" if "i < length ?new" for i
    using that by simp
  have "\<forall>x \<in> set ?new. x = 0 \<or> x = 1"
  proof
    fix x assume "x \<in> set ?new"
    then obtain i where "i < length ?new" "?new ! i = x" by (auto simp: in_set_conv_nth)
    with entry [of i] show "x = 0 \<or> x = 1" by simp
  qed
  then have "zeroOrOne ?new" by (simp add: zeroOrOne_def list_all_iff)
  moreover have "mGains (mQueue (centerGains w st) ! nat (mCenter w)) = ?new"
    using assms(2) wellFormed_parts(4) [OF assms(1)] by (simp add: centerGains_def Let_def)
  ultimately show ?thesis by simp
qed

lemma queue_centerGains:
  assumes "k \<noteq> nat (mCenter w)"
  shows "mQueue (centerGains w st) ! k = mQueue w ! k"
  using assms by (simp add: centerGains_def Let_def)

lemma queue_Fill:
  assumes "k \<noteq> 0"
  shows "mQueue (FillFirstHistoryWindow w) ! k = mQueue w ! k"
  using assms by (simp add: FillFirstHistoryWindow_def Let_def)

lemma buildGains_isolate:
  assumes "wNoiseReductionChoice w = NRC_ISOLATE_NOISE"
  shows "buildGains w st = centerGains w st"
proof -
  have "fixedFields (centerGains w st) = fixedFields w" by simp
  then have "wNoiseReductionChoice (centerGains w st) = wNoiseReductionChoice w"
    by (simp add: fixedFields_def)
  with assms show ?thesis by (simp add: buildGains_def Let_def)
qed

lemma synthesize_isolate:
  assumes "wNoiseReductionChoice w = NRC_ISOLATE_NOISE"
  shows "mQueue (fst (synthesize w out)) = mQueue w"
    and "- (mStepsPerWindow w - 1) \<le> mOutStepCount w \<Longrightarrow>
         mFFTBuffer (fst (synthesize w out)) =
           InverseRealFFTf (hFFT w) (applyGain w (mQueue w ! nat (mHistoryLen w - 1)))"
  using assms by (simp_all add: synthesize_def Let_def)

lemma queue_Rotate:
  assumes "length (mQueue w) = nat (mHistoryLen w)" "1 \<le> k" "k < nat (mHistoryLen w)"
  shows "mQueue (RotateHistoryWindows w) ! k = mQueue w ! (k - 1)"
proof -
  from assms(1,3) have "mQueue w \<noteq> []" by auto
  with assms show ?thesis
    by (simp add: RotateHistoryWindows_def Let_def nth_butlast nth_Cons')
qed

lemma isolated_processWindow:
  assumes "wellFormed w" "wNoiseReductionChoice w = NRC_ISOLATE_NOISE" "\<not> wDoProfile w"
    and "isolated w"
  shows "isolated (fst (processWindow (w, st, out)))"
proof -
  let ?w1 = "FillFirstHistoryWindow w"
  let ?w2 = "fst (ReduceNoise ?w1 st out)"
  let ?w' = "fst (processWindow (w, st, out))"
  have "fixedFields ?w' = fixedFields w" by simp
  then have same: "mCenter ?w' = mCenter w" "mHistoryLen ?w' = mHistoryLen w"
    "mStepsPerWindow ?w' = mStepsPerWindow w"
    by (simp_all add: fixedFields_def)
  have count: "mOutStepCount ?w' = mOutStepCount w + 1" by (rule processWindow_counts)
  have "fixedFields ?w1 = fixedFields w" by simp
  then have one: "wNoiseReductionChoice ?w1 = NRC_ISOLATE_NOISE" "mCenter ?w1 = mCenter w"
    using assms(2) by (simp_all add: fixedFields_def)
  have wf1: "wellFormed ?w1" by (rule wellFormed_Fill [OF assms(1)])
  have "fixedFields (buildGains ?w1 st) = fixedFields w" by simp
  then have "wNoiseReductionChoice (buildGains ?w1 st) = NRC_ISOLATE_NOISE"
    using assms(2) by (simp add: fixedFields_def)
  then have q2: "mQueue ?w2 = mQueue (centerGains ?w1 st)"
    by (simp add: ReduceNoise_def synthesize_isolate(1) buildGains_isolate [OF one(1)])
  have wf2: "wellFormed ?w2" by (rule wellFormed_ReduceNoise [OF wf1])
  have "fixedFields ?w2 = fixedFields w" by simp
  then have len2: "mHistoryLen ?w2 = mHistoryLen w" by (simp add: fixedFields_def)
  have queue': "mQueue ?w' =
      mQueue (RotateHistoryWindows (?w2\<lparr>mOutStepCount := mOutStepCount ?w2 + 1\<rparr>))"
    using assms(3) by (simp add: fst_processWindow Let_def)
  note center = wellFormed_parts(1) [OF assms(1)]
  show ?thesis
    unfolding isolated_iff
  proof (intro allI impI)
    fix k
    assume "nat (mCenter ?w' + 1) \<le> k \<and> k < nat (mHistoryLen ?w') \<and>
      int k - mCenter ?w' \<le> mOutStepCount ?w' + (mHistoryLen ?w' - 1) + (mStepsPerWindow ?w' - 1)"
    then have k: "nat (mCenter w + 1) \<le> k" "k < nat (mHistoryLen w)"
      "int k - mCenter w \<le> mOutStepCount w + 1 + (mHistoryLen w - 1) + (mStepsPerWindow w - 1)"
      by (simp_all add: same count)
    from k(1) center have k1: "1 \<le> k" by simp
    have "mQueue ?w' ! k = mQueue ?w2 ! (k - 1)"
      using queue_Rotate [of "?w2\<lparr>mOutStepCount := mOutStepCount ?w2 + 1\<rparr>" k]
        wellFormed_parts(3) [OF wf2] k1 k(2) len2
      by (simp add: queue')
    then have at: "mQueue ?w' ! k = mQueue (centerGains ?w1 st) ! (k - 1)" by (simp add: q2)
    show "zeroOrOne (mGains (mQueue ?w' ! k))"
    proof (cases "k - 1 = nat (mCenter w)")
      case True
      with zeroOrOne_centerGains [OF wf1 one(1), of st] show ?thesis
        by (simp add: at one(2))
    next
      case False
      from False k(1) center have low: "nat (mCenter w + 1) \<le> k - 1" by simp
      from low center have "k - 1 \<noteq> 0" by simp
      with False have "mQueue ?w' ! k = mQueue w ! (k - 1)"
        by (simp add: at queue_centerGains one(2) queue_Fill)
      moreover have "zeroOrOne (mGains (mQueue w ! (k - 1)))"
      proof -
        from k(2) have "k - 1 < nat (mHistoryLen w)" by simp
        moreover from k(3) k1 have "int (k - 1) - mCenter w \<le>
            mOutStepCount w + (mHistoryLen w - 1) + (mStepsPerWindow w - 1)"
          by simp
        ultimately show ?thesis
          using assms(4) low unfolding isolated_iff by blast
      qed
      ultimately show ?thesis by simp
    qed
  qed
qed

lemma reachable_isolated:
  assumes "pass \<in> reachable w0 st0" "wellFormed w0"
    "wNoiseReductionChoice w0 = NRC_ISOLATE_NOISE" "\<not> wDoProfile w0"
  shows "isolated (fst pass)"
  using assms(1)
proof (induction rule: reachable.induct)
  case started
  have "\<not> (nat (mCenter w0 + 1) \<le> k \<and> int k - mCenter w0 \<le> 0)" for k
    using wellFormed_parts(1) [OF assms(2)] by auto
  then show ?case
    by (auto simp: isolated_iff StartNewTrack_def)
next
  case (counted w statistics outputTrack blockSize)
  then show ?case by simp
next
  case (copied w statistics outputTrack avail buffer)
  then show ?case by simp
next
  case (windowed w statistics outputTrack)
  from reachable_wellFormed [OF windowed(1) assms(2)] have wf: "wellFormed w" by simp
  from reachable_fixed [OF windowed(1)] have "fixedFields w = fixedFields w0" by simp
  then have "wNoiseReductionChoice w = wNoiseReductionChoice w0" "wDoProfile w = wDoProfile w0"
    by (simp_all add: fixedFields_def)
  with assms(3,4) have "wNoiseReductionChoice w = NRC_ISOLATE_NOISE" "\<not> wDoProfile w"
    by simp_all
  with wf windowed(3) show ?case by (simp add: isolated_processWindow)
qed

lemma nextWindow_counts:
  "mOutStepCount (fst (nextWindow pass buffer)) = mOutStepCount (fst pass) + 1"
  "mInWavePos (fst (nextWindow pass buffer)) = mInWavePos (fst pass)"
  "fixedFields (fst (nextWindow pass buffer)) = fixedFields (fst pass)"
proof -
  obtain w st out where pass: "pass = (w, st, out)" by (cases pass)
  let ?w1 = "w\<lparr>mInWaveBuffer := memmove (mInWaveBuffer w) (mInWavePos w) buffer (mStepSize w),
                mInWavePos := mInWavePos w + mStepSize w\<rparr>"
  have turn: "nextWindow (w, st, out) buffer = processWindow (?w1, st, out)"
    by (simp add: nextWindow_def)
  show "mOutStepCount (fst (nextWindow pass buffer)) = mOutStepCount (fst pass) + 1"
    by (simp add: pass turn processWindow_counts)
  show "mInWavePos (fst (nextWindow pass buffer)) = mInWavePos (fst pass)"
    by (simp add: pass turn processWindow_counts)
  have "fixedFields (fst (processWindow (?w1, st, out))) = fixedFields ?w1" by simp
  moreover have "fixedFields ?w1 = fixedFields w" by (simp add: fixedFields_def)
  ultimately show "fixedFields (fst (nextWindow pass buffer)) = fixedFields (fst pass)"
    by (simp add: pass turn)
qed

lemma nextWindow_reachable:
  assumes "pass \<in> reachable w0 st0"
    and "mInWavePos (fst pass) = mWindowSize (fst pass) - mStepSize (fst pass)"
    and "0 \<le> mStepSize (fst pass)"
  shows "nextWindow pass buffer \<in> reachable w0 st0"
proof -
  obtain w st out where pass: "pass = (w, st, out)" by (cases pass)
  from assms have r: "(w, st, out) \<in> reachable w0 st0"
    and pos: "mInWavePos w = mWindowSize w - mStepSize w" and step: "0 \<le> mStepSize w"
    by (simp_all add: pass)
  from pos have room: "mStepSize w \<le> mWindowSize w - mInWavePos w" by simp
  from r step room
  have "(w\<lparr>mInWaveBuffer := memmove (mInWaveBuffer w) (mInWavePos w) buffer (mStepSize w),
            mInWavePos := mInWavePos w + mStepSize w\<rparr>, st, out) \<in> reachable w0 st0"
    by (rule reachable.copied)
  then have "processWindow
      (w\<lparr>mInWaveBuffer := memmove (mInWaveBuffer w) (mInWavePos w) buffer (mStepSize w),
          mInWavePos := mInWavePos w + mStepSize w\<rparr>, st, out) \<in> reachable w0 st0"
    by (rule reachable.windowed) (simp add: pos)
  then show ?thesis by (simp add: pass nextWindow_def)
qed

lemma isolateSettings_worker:
  "mHistoryLen (new_Worker idleFFT isolateSettings 44100 (- 1) (- 1)) = 3"
  "mStepsPerWindow (new_Worker idleFFT isolateSettings 44100 (- 1) (- 1)) = 2"
  "wNoiseReductionChoice (new_Worker idleFFT isolateSettings 44100 (- 1) (- 1)) = NRC_ISOLATE_NOISE"
  "\<not> wDoProfile (new_Worker idleFFT isolateSettings 44100 (- 1) (- 1))"
  "Validate isolateSettings"
  "0 \<le> mNoiseGain isolateSettings" "0 \<le> mFreqSmoothingHz isolateSettings"
  by (simp_all add: new_Worker_examine new_Worker_history new_Worker_sizes new_Worker_buffers(3)
      isolateSettings_def
      smallSettings_def defaultSettings_def StepsPerWindow_def WindowSize_def trunc_def
      Validate_def DM_OLD_METHOD_def DM_MEDIAN_def DM_SECOND_GREATEST_def)

text \<open>
  C4. When the worker isolates the noise, in every state of a pass the gains that
  \<open>ReduceNoise\<close> gives the record at the center are all 0 or 1, and the records behind the
  center that have been at the center since the start of the track still have such
  gains; when the window reaches the synthesis (\<open>mOutStepCount >= -(mStepsPerWindow - 1)\<close>),
  the gains of the last record of the queue are all 0 or 1, the synthesis applies these
  gains, and it leaves the queue as it is.
\<close>

theorem isolate_gains_zero_or_one:
  assumes "wellFormed w0" and "wNoiseReductionChoice w0 = NRC_ISOLATE_NOISE"
    and "\<not> wDoProfile w0"
    and "(w, statistics, outputTrack) \<in> reachable w0 statistics0"
  shows "zeroOrOne (mGains (mQueue (buildGains (FillFirstHistoryWindow w) statistics) !
                      nat (mCenter w))) \<and>
         isolated w \<and>
         (- (mStepsPerWindow w - 1) \<le> mOutStepCount w \<longrightarrow>
            zeroOrOne (mGains (mQueue (buildGains (FillFirstHistoryWindow w) statistics) !
                         nat (mHistoryLen w - 1))) \<and>
            mFFTBuffer (fst (ReduceNoise (FillFirstHistoryWindow w) statistics outputTrack)) =
              InverseRealFFTf (hFFT w)
                (applyGain (buildGains (FillFirstHistoryWindow w) statistics)
                   (mQueue (buildGains (FillFirstHistoryWindow w) statistics) !
                      nat (mHistoryLen w - 1))) \<and>
            mQueue (fst (ReduceNoise (FillFirstHistoryWindow w) statistics outputTrack)) =
              mQueue (buildGains (FillFirstHistoryWindow w) statistics))"
proof -
  let ?w1 = "FillFirstHistoryWindow w"
  let ?w2 = "buildGains ?w1 statistics"
  have "wellFormed (fst (w, statistics, outputTrack))"
    using assms(4,1) by (rule reachable_wellFormed)
  then have wf: "wellFormed w" by simp
  have "fixedFields (fst (w, statistics, outputTrack)) = fixedFields w0"
    using assms(4) by (rule reachable_fixed)
  then have "wNoiseReductionChoice w = wNoiseReductionChoice w0"
    by (simp add: fixedFields_def)
  with assms(2) have mode: "wNoiseReductionChoice w = NRC_ISOLATE_NOISE" by simp
  have "isolated (fst (w, statistics, outputTrack))"
    using assms(4,1,2,3) by (rule reachable_isolated)
  then have kept: "isolated w" by simp
  have "fixedFields ?w1 = fixedFields w" by simp
  then have one: "wNoiseReductionChoice ?w1 = NRC_ISOLATE_NOISE" "mCenter ?w1 = mCenter w"
    using mode by (simp_all add: fixedFields_def)
  have wf1: "wellFormed ?w1" by (rule wellFormed_Fill [OF wf])
  have built: "?w2 = centerGains ?w1 statistics" by (rule buildGains_isolate [OF one(1)])
  have "fixedFields ?w2 = fixedFields w" by simp
  then have two: "wNoiseReductionChoice ?w2 = NRC_ISOLATE_NOISE" "hFFT ?w2 = hFFT w"
    "mStepsPerWindow ?w2 = mStepsPerWindow w" "mHistoryLen ?w2 = mHistoryLen w"
    using mode by (simp_all add: fixedFields_def)
  have count: "mOutStepCount ?w2 = mOutStepCount w"
    using counters_buildGains [of ?w1 statistics] counters_Fill [of w]
    by (simp add: counters_def)
  have center: "zeroOrOne (mGains (mQueue ?w2 ! nat (mCenter w)))"
    using zeroOrOne_centerGains [OF wf1 one(1), of statistics] by (simp add: built one(2))
  have gated: "zeroOrOne (mGains (mQueue ?w2 ! nat (mHistoryLen w - 1)))"
    if ready: "- (mStepsPerWindow w - 1) \<le> mOutStepCount w"
  proof (cases "nat (mHistoryLen w - 1) = nat (mCenter w)")
    case True
    with center show ?thesis by simp
  next
    case False
    note c = wellFormed_parts(1,2) [OF wf]
    from False c have behind: "nat (mCenter w + 1) \<le> nat (mHistoryLen w - 1)" by simp
    from c have "nat (mHistoryLen w - 1) \<noteq> 0" by simp
    with False have "mQueue ?w2 ! nat (mHistoryLen w - 1) = mQueue w ! nat (mHistoryLen w - 1)"
      by (simp add: built queue_centerGains one(2) queue_Fill)
    moreover have "zeroOrOne (mGains (mQueue w ! nat (mHistoryLen w - 1)))"
    proof -
      from c have "nat (mHistoryLen w - 1) < nat (mHistoryLen w)" by simp
      moreover from c ready have "int (nat (mHistoryLen w - 1)) - mCenter w \<le>
          mOutStepCount w + (mHistoryLen w - 1) + (mStepsPerWindow w - 1)"
        by simp
      ultimately show ?thesis using kept behind unfolding isolated_iff by blast
    qed
    ultimately show ?thesis by simp
  qed
  have applied: "mFFTBuffer (fst (ReduceNoise ?w1 statistics outputTrack)) =
      InverseRealFFTf (hFFT w) (applyGain ?w2 (mQueue ?w2 ! nat (mHistoryLen w - 1)))"
    if ready: "- (mStepsPerWindow w - 1) \<le> mOutStepCount w"
    using synthesize_isolate(2) [OF two(1), of outputTrack] ready
    by (simp add: ReduceNoise_def two count)
  have queue: "mQueue (fst (ReduceNoise ?w1 statistics outputTrack)) = mQueue ?w2"
    using synthesize_isolate(1) [OF two(1), of outputTrack] by (simp add: ReduceNoise_def)
  from center kept gated applied queue show ?thesis by blast
qed

theorem isolate_gains_zero_or_one_witness:
  "isolateExample \<in>
     reachable (new_Worker idleFFT isolateSettings 44100 (- 1) (- 1))
       (new_Statistics 5 44100 WT_RECTANGULAR_HANN) \<and>
   - (mStepsPerWindow (fst isolateExample) - 1) \<le> mOutStepCount (fst isolateExample) \<and>
   zeroOrOne
     (mGains (mQueue (buildGains (FillFirstHistoryWindow (fst isolateExample))
                        (fst (snd isolateExample))) !
                nat (mHistoryLen (fst isolateExample) - 1)))"
proof -
  let ?w0 = "new_Worker idleFFT isolateSettings 44100 (- 1) (- 1)"
  let ?st = "new_Statistics 5 44100 WT_RECTANGULAR_HANN"
  let ?p0 = "(StartNewTrack ?w0, ?st, [])"
  let ?p1 = "nextWindow ?p0 (replicate 4 1)"
  have wf: "wellFormed ?w0"
    using isolateSettings_worker(5,6,7) by (intro wellFormed_new_Worker) simp_all
  note mode = isolateSettings_worker(3) and profile = isolateSettings_worker(4)
  have r0: "?p0 \<in> reachable ?w0 ?st" by (rule reachable.started)
  have step: "0 \<le> mStepSize ?w0" using wf by (simp add: wellFormed_def)
  have pos0: "mInWavePos (fst ?p0) = mWindowSize (fst ?p0) - mStepSize (fst ?p0)"
    by (simp add: StartNewTrack_def)
  have step0: "0 \<le> mStepSize (fst ?p0)" using step by (simp add: StartNewTrack_def)
  have r1: "?p1 \<in> reachable ?w0 ?st" using r0 pos0 step0 by (rule nextWindow_reachable)
  have fixed1: "fixedFields (fst ?p1) = fixedFields ?w0"
    using nextWindow_counts(3) [of ?p0 "replicate 4 1"] by simp
  have pos1: "mInWavePos (fst ?p1) = mWindowSize (fst ?p1) - mStepSize (fst ?p1)"
    using nextWindow_counts(2) [of ?p0 "replicate 4 1"] fixed_step(1,2) [OF fixed1]
    by (simp add: StartNewTrack_def)
  have step1: "0 \<le> mStepSize (fst ?p1)" using step fixed_step(1) [OF fixed1] by simp
  have example: "isolateExample = nextWindow ?p1 (replicate 4 (1 / 2))"
    by (simp add: isolateExample_def)
  have r2: "isolateExample \<in> reachable ?w0 ?st"
    unfolding example using r1 pos1 step1 by (rule nextWindow_reachable)
  have fixed2: "fixedFields (fst isolateExample) = fixedFields ?w0"
    unfolding example using nextWindow_counts(3) [of ?p1 "replicate 4 (1 / 2)"] fixed1 by simp
  have "mOutStepCount (fst isolateExample) = mOutStepCount (fst ?p0) + 1 + 1"
    unfolding example
    using nextWindow_counts(1) [of ?p1 "replicate 4 (1 / 2)"]
      nextWindow_counts(1) [of ?p0 "replicate 4 1"]
    by simp
  then have count: "mOutStepCount (fst isolateExample) = - 1"
    by (simp add: StartNewTrack_def isolateSettings_worker(1,2))
  have steps: "mStepsPerWindow (fst isolateExample) = 2"
    using fixed_step(3) [OF fixed2] by (simp add: isolateSettings_worker(2))
  from count steps have ready:
    "- (mStepsPerWindow (fst isolateExample) - 1) \<le> mOutStepCount (fst isolateExample)"
    by simp
  from r2 have r: "(fst isolateExample, fst (snd isolateExample), snd (snd isolateExample))
      \<in> reachable ?w0 ?st"
    by simp
  from isolate_gains_zero_or_one [OF wf mode profile r] ready
  have "zeroOrOne
     (mGains (mQueue (buildGains (FillFirstHistoryWindow (fst isolateExample))
                        (fst (snd isolateExample))) !
                nat (mHistoryLen (fst isolateExample) - 1)))"
    by blast
  with r2 ready show ?thesis by blast
qed

end
